theory Spec2Isabelle
  imports Complex_Main "HOL-Library.Word"
begin

section \<open>Results\<close>

text \<open>
  A call, and the read of a property, either returns or throws: a result is a value or
  an exception. An exception is a \<^verbatim>\<open>TypeError\<close> of the host or what other code throws, told
  apart by a number.
\<close>

datatype exn = TypeError | Thrown nat

type_synonym 'a result = "exn + 'a"

section \<open>Runtime values\<close>

text \<open>
  A validator of \<^verbatim>\<open>src/index.ts\<close> has the type \<^verbatim>\<open>(val: unknown) => val is T\<close>: it is
  called on any runtime value. A string is the list of its UTF-16 code units. A number is
  a not-a-number, an infinity or a finite value (the finite doubles are a subset of the
  reals, and both zeros are the one value \<open>Finite 0\<close>, which no validator tells apart).

  A property is recorded with the result of reading it: \<open>Inr v\<close> for a data property that
  holds \<open>v\<close> and for an accessor that returns \<open>v\<close>, \<open>Inl e\<close> for an accessor that throws
  \<open>e\<close>. A composite value carries what the validators read from it:
  \<^item> \<open>JObject own chain\<close>: \<open>own\<close> holds the own enumerable string-keyed properties in the
    order in which \<^verbatim>\<open>Object.keys\<close> lists them, \<open>chain\<close> the further properties that a
    property read finds (own non-enumerable ones and those of the prototype chain, such
    as \<^verbatim>\<open>toString\<close> of a plain object);
  \<^item> \<open>JArray elems extra chain\<close>: an array with the elements \<open>elems\<close> (data properties,
    without holes), its further own enumerable properties \<open>extra\<close> in their order (their
    names are neither indices nor \<^verbatim>\<open>length\<close>), and \<open>chain\<close> as before, which for an array
    as the host makes it holds the methods of the array prototype (\<^verbatim>\<open>length\<close> is computed
    from \<open>elems\<close>).

  The validators never call a function that they find in a value, but for the methods
  \<^verbatim>\<open>values\<close> and \<^verbatim>\<open>entries\<close> of an array, over whose result they loop. A function is
  \<open>Builtin\<close>, a function of the host, which under the names \<^verbatim>\<open>values\<close> and \<^verbatim>\<open>entries\<close> of an
  array is the method of that name of the array prototype; or it is \<open>Opaque\<close>, any other
  function, recorded with what a loop over the result of calling it sees: the values
  that \<^verbatim>\<open>for (const value of f())\<close> binds and the pairs that
  \<^verbatim>\<open>for (const [key, value] of f())\<close> binds, each with the exception that ends the loop,
  if one does (thrown by the call, by the iteration or by the destructuring).

  Proxies, properties under symbols and values that contain themselves are outside this
  model.
\<close>

type_synonym jschar = "16 word"
type_synonym jsstring = "jschar list"

definition str :: "string \<Rightarrow> jsstring" where
  "str s = map (\<lambda>c. of_char c) s"

datatype jsnum = NaN | PosInfinity | NegInfinity | Finite real

datatype jsval =
    JUndefined
  | JNull
  | JBoolean bool
  | JNumber jsnum
  | JString jsstring
  | JSymbol nat
  | JBigInt int
  | JFunction callee
  | JObject "(jsstring \<times> (exn + jsval)) list" "(jsstring \<times> (exn + jsval)) list"
  | JArray "jsval list" "(jsstring \<times> (exn + jsval)) list"
      "(jsstring \<times> (exn + jsval)) list"
and callee =
    Builtin
  | Opaque "jsval list \<times> exn option" "(jsval \<times> jsval) list \<times> exn option"

type_synonym property = "jsstring \<times> jsval result"

fun typeof :: "jsval \<Rightarrow> string" where
  "typeof JUndefined = ''undefined''"
| "typeof JNull = ''object''"
| "typeof (JBoolean b) = ''boolean''"
| "typeof (JNumber n) = ''number''"
| "typeof (JString s) = ''string''"
| "typeof (JSymbol i) = ''symbol''"
| "typeof (JBigInt i) = ''bigint''"
| "typeof (JFunction f) = ''function''"
| "typeof (JObject own chain) = ''object''"
| "typeof (JArray elems extra chain) = ''object''"

text \<open>\<^verbatim>\<open>val == null\<close>: the loose comparison holds of \<^verbatim>\<open>null\<close> and \<^verbatim>\<open>undefined\<close> only.\<close>

fun loosely_null :: "jsval \<Rightarrow> bool" where
  "loosely_null JNull = True"
| "loosely_null JUndefined = True"
| "loosely_null v = False"

section \<open>Validators\<close>

text \<open>
  A validator is a function from a value to a result, so that a child validator that
  throws, a property read that throws and a host function that throws are branches of
  every combinator that meets them.
\<close>

type_synonym validator = "jsval \<Rightarrow> bool result"

definition and_then :: "'a result \<Rightarrow> ('a \<Rightarrow> 'b result) \<Rightarrow> 'b result" where
  "and_then r k = (case r of Inl e \<Rightarrow> Inl e | Inr a \<Rightarrow> k a)"

text \<open>\<^verbatim>\<open>a || b\<close> and \<^verbatim>\<open>a && b\<close>: the right operand is evaluated only when the left one
  does not decide.\<close>

definition or_else :: "bool result \<Rightarrow> bool result \<Rightarrow> bool result" where
  "or_else a b = and_then a (\<lambda>x. if x then Inr True else b)"

definition and_also :: "bool result \<Rightarrow> bool result \<Rightarrow> bool result" where
  "and_also a b = and_then a (\<lambda>x. if x then b else Inr False)"

text \<open>A validator that returns on every value.\<close>

definition never_throws :: "validator \<Rightarrow> bool" where
  "never_throws v = (\<forall>val. \<exists>b. v val = Inr b)"

text \<open>A pure predicate as a validator: it returns its verdict and never throws.\<close>

definition lift :: "(jsval \<Rightarrow> bool) \<Rightarrow> validator" where
  "lift p val = Inr (p val)"

section \<open>Atomic validators\<close>

text \<open>\<^verbatim>\<open>$const\<close> takes a number, string, boolean, \<^verbatim>\<open>undefined\<close> or symbol.\<close>

datatype literal = LNumber jsnum | LString jsstring | LBoolean bool | LUndefined | LSymbol nat

text \<open>\<^verbatim>\<open>val === def\<close>: same kind and same value; a not-a-number equals nothing.\<close>

fun strictly_equal :: "jsval \<Rightarrow> literal \<Rightarrow> bool" where
  "strictly_equal (JNumber x) (LNumber y) = (x \<noteq> NaN \<and> x = y)"
| "strictly_equal (JString s) (LString t) = (s = t)"
| "strictly_equal (JBoolean a) (LBoolean b) = (a = b)"
| "strictly_equal JUndefined LUndefined = True"
| "strictly_equal (JSymbol i) (LSymbol j) = (i = j)"
| "strictly_equal v d = False"

definition const :: "literal \<Rightarrow> validator" where
  "const d val = Inr (strictly_equal val d)"

definition number :: validator where
  "number val = Inr (typeof val = ''number'')"

definition string :: validator where
  "string val = Inr (typeof val = ''string'')"

definition null :: validator where
  "null val = Inr (val = JNull)"

definition undefined_v :: validator where
  "undefined_v val = Inr (val = JUndefined)"

definition any :: validator where
  "any val = Inr True"

definition symbol :: validator where
  "symbol val = Inr (typeof val = ''symbol'')"

definition bigint :: validator where
  "bigint val = Inr (typeof val = ''bigint'')"

definition boolean :: validator where
  "boolean val = Inr (typeof val = ''boolean'')"

section \<open>Optional and nullable\<close>

definition optional :: "validator \<Rightarrow> validator" where
  "optional validator val = or_else (Inr (loosely_null val)) (validator val)"

definition nullable :: "validator \<Rightarrow> validator" where
  "nullable validator val = or_else (null val) (validator val)"

section \<open>Intersection and union\<close>

text \<open>
  \<^verbatim>\<open>$intersection\<close> runs every validator and keeps a flag; \<^verbatim>\<open>$union\<close> returns from
  inside its loop at the first validator that accepts.
\<close>

primrec intersection_loop :: "validator list \<Rightarrow> jsval \<Rightarrow> bool \<Rightarrow> bool result" where
  "intersection_loop [] val failed = Inr failed"
| "intersection_loop (validator # rest) val failed =
     and_then (validator val)
       (\<lambda>ok. intersection_loop rest val (if \<not> ok then True else failed))"

definition intersection :: "validator list \<Rightarrow> validator" where
  "intersection validators val =
     and_then (intersection_loop validators val False) (\<lambda>failed. Inr (\<not> failed))"

primrec union :: "validator list \<Rightarrow> validator" where
  "union [] val = Inr False"
| "union (validator # rest) val =
     and_then (validator val) (\<lambda>ok. if ok then Inr True else union rest val)"

section \<open>Numbers\<close>

text \<open>\<^verbatim>\<open>a <= b\<close> on two numbers: false as soon as one of them is a not-a-number.\<close>

fun num_le :: "jsnum \<Rightarrow> jsnum \<Rightarrow> bool" where
  "num_le NaN y = False"
| "num_le x NaN = False"
| "num_le NegInfinity y = True"
| "num_le x PosInfinity = True"
| "num_le (Finite a) (Finite b) = (a \<le> b)"
| "num_le x y = False"

definition Number_isNaN :: "jsnum \<Rightarrow> bool" where
  "Number_isNaN n = (n = NaN)"

record NumberRangeArgs =
  range_min :: "jsnum option"
  range_max :: "jsnum option"

text \<open>
  \<^verbatim>\<open>$numberRange\<close>: a bound that is left out is \<^verbatim>\<open>undefined\<close>, which \<^verbatim>\<open>$number\<close> rejects, so
  that its comparison is not evaluated; \<^verbatim>\<open>max >= val\<close> is \<^verbatim>\<open>val <= max\<close>.
\<close>

definition numberRange :: "NumberRangeArgs \<Rightarrow> validator" where
  "numberRange args val =
     (case val of
        JNumber x \<Rightarrow>
          Inr ((case range_min args of None \<Rightarrow> True | Some lo \<Rightarrow> num_le lo x)
             \<and> (case range_max args of None \<Rightarrow> True | Some hi \<Rightarrow> num_le x hi))
      | _ \<Rightarrow> Inr False)"

section \<open>Strings\<close>

text \<open>
  White space and line terminators of the language: the characters that \<^verbatim>\<open>parseInt\<close>
  skips at the start of its input and that \<^verbatim>\<open>\s\<close> matches in a regular expression.
\<close>

definition is_white_space :: "jschar \<Rightarrow> bool" where
  "is_white_space c =
     (c \<in> {0x0009, 0x000A, 0x000B, 0x000C, 0x000D, 0x0020, 0x00A0, 0x1680,
           0x2028, 0x2029, 0x202F, 0x205F, 0x3000, 0xFEFF}
      \<or> (0x2000 \<le> c \<and> c \<le> 0x200A))"

text \<open>The value of a digit or letter as a digit, for radices up to 36.\<close>

definition digit_value :: "jschar \<Rightarrow> nat option" where
  "digit_value c =
     (if 0x30 \<le> c \<and> c \<le> 0x39 then Some (unat c - 0x30)
      else if 0x61 \<le> c \<and> c \<le> 0x7A then Some (unat c - 0x61 + 10)
      else if 0x41 \<le> c \<and> c \<le> 0x5A then Some (unat c - 0x41 + 10)
      else None)"

definition is_radix_digit :: "nat \<Rightarrow> jschar \<Rightarrow> bool" where
  "is_radix_digit R c = (case digit_value c of None \<Rightarrow> False | Some d \<Rightarrow> d < R)"

definition math_int :: "nat \<Rightarrow> jsstring \<Rightarrow> nat" where
  "math_int R Z =
     foldl (\<lambda>acc c. case digit_value c of None \<Rightarrow> acc | Some d \<Rightarrow> acc * R + d) 0 Z"

text \<open>
  \<^verbatim>\<open>parseInt(string)\<close> without a radix, step by step as the language defines it: skip
  leading white space, take one sign, take a \<^verbatim>\<open>0x\<close> or \<^verbatim>\<open>0X\<close> prefix (which makes the
  radix 16, otherwise it is 10), keep the longest prefix of digits of the radix; no digit
  gives a not-a-number. (The host rounds a long digit string to a double, possibly to an
  infinity; the value here is exact. Neither is a not-a-number.)
\<close>

definition parseInt :: "jsstring \<Rightarrow> jsnum" where
  "parseInt inputString =
     (let S = dropWhile is_white_space inputString;
          sign = (case S of c # rest \<Rightarrow> if c = 0x2D then - 1 else 1 | [] \<Rightarrow> (1 :: int));
          S = (case S of c # rest \<Rightarrow> if c = 0x2B \<or> c = 0x2D then rest else S | [] \<Rightarrow> S);
          stripPrefix = (take 2 S = str ''0x'' \<or> take 2 S = str ''0X'');
          R = (if stripPrefix then 16 else 10);
          S = (if stripPrefix then drop 2 S else S);
          Z = takeWhile (is_radix_digit R) S
      in if Z = [] then NaN else Finite (real_of_int (sign * int (math_int R Z))))"

definition numericString :: validator where
  "numericString val =
     and_then (string val) (\<lambda>is_string.
       if \<not> is_string then Inr False
       else (case val of JString s \<Rightarrow> Inr (\<not> Number_isNaN (parseInt s)) | _ \<Rightarrow> Inr False))"

definition enum :: "jsstring list \<Rightarrow> validator" where
  "enum enums input =
     and_then (string input) (\<lambda>is_string.
       if \<not> is_string then Inr False
       else Inr (input \<in> set (map JString enums)))"

section \<open>Regular expressions\<close>

text \<open>
  The patterns of the source are built from character classes, sequence, \<^verbatim>\<open>+\<close>,
  \<^verbatim>\<open>{n}\<close>, groups and the assertions \<^verbatim>\<open>^\<close> and \<^verbatim>\<open>$\<close>, without flags. \<open>run r s ps\<close> lists the
  positions where a match of \<open>r\<close> in \<open>s\<close> can end when it starts at one of the positions
  \<open>ps\<close>. A repetition \<^verbatim>\<open>r+\<close> is one or more rounds of \<open>r\<close>; a position of \<open>s\<close> that some
  number of rounds reaches is reached in at most \<open>length s + 1\<close> rounds.
\<close>

datatype regexp =
    Class "jschar \<Rightarrow> bool"
  | Seq regexp regexp
  | Plus regexp
  | Repeat nat regexp
  | Group regexp
  | LineStart
  | LineEnd

primrec run :: "regexp \<Rightarrow> jsstring \<Rightarrow> nat list \<Rightarrow> nat list" where
  "run (Class p) s = (\<lambda>ps. map Suc (filter (\<lambda>i. i < length s \<and> p (s ! i)) ps))"
| "run (Seq r1 r2) s = (\<lambda>ps. run r2 s (run r1 s ps))"
| "run (Plus r) s = (\<lambda>ps. concat (map (\<lambda>n. ((run r s) ^^ Suc n) ps) [0..<Suc (length s)]))"
| "run (Repeat n r) s = (run r s) ^^ n"
| "run (Group r) s = run r s"
| "run LineStart s = filter (\<lambda>i. i = 0)"
| "run LineEnd s = filter (\<lambda>i. i = length s)"

text \<open>\<^verbatim>\<open>regexp.test(s)\<close> without the global and sticky flags: a match may start at any
  position of \<open>s\<close>, the end included.\<close>

definition RegExp_test :: "regexp \<Rightarrow> jsstring \<Rightarrow> bool" where
  "RegExp_test r s = (run r s [0..<Suc (length s)] \<noteq> [])"

definition regexp :: "regexp \<Rightarrow> validator" where
  "regexp re val = (case val of JString s \<Rightarrow> Inr (RegExp_test re s) | _ \<Rightarrow> Inr False)"

text \<open>\<^verbatim>\<open>[^\s@]\<close>, a literal character, and \<^verbatim>\<open>[0-9a-f]\<close>.\<close>

definition not_space_at :: "jschar \<Rightarrow> bool" where
  "not_space_at c = (\<not> is_white_space c \<and> c \<noteq> 0x40)"

definition hex_digit :: "jschar \<Rightarrow> bool" where
  "hex_digit c = ((0x30 \<le> c \<and> c \<le> 0x39) \<or> (0x61 \<le> c \<and> c \<le> 0x66))"

definition Chr :: "jschar \<Rightarrow> regexp" where
  "Chr c = Class (\<lambda>x. x = c)"

text \<open>\<^verbatim>\<open>/^[^\s@]+@[^\s@]+\.[^\s@]+$/\<close>\<close>

definition email_pattern :: regexp where
  "email_pattern =
     Seq LineStart (Seq (Plus (Class not_space_at)) (Seq (Chr 0x40)
       (Seq (Plus (Class not_space_at)) (Seq (Chr 0x2E)
         (Seq (Plus (Class not_space_at)) LineEnd)))))"

definition email :: validator where
  "email = regexp email_pattern"

text \<open>\<^verbatim>\<open>/([0-9a-f]{8})-([0-9a-f]{4})-([0-9a-f]{4})-([0-9a-f]{4})-([0-9a-f]{12})/\<close>\<close>

definition uuid_pattern :: regexp where
  "uuid_pattern =
     Seq (Group (Repeat 8 (Class hex_digit))) (Seq (Chr 0x2D)
       (Seq (Group (Repeat 4 (Class hex_digit))) (Seq (Chr 0x2D)
         (Seq (Group (Repeat 4 (Class hex_digit))) (Seq (Chr 0x2D)
           (Seq (Group (Repeat 4 (Class hex_digit))) (Seq (Chr 0x2D)
             (Group (Repeat 12 (Class hex_digit))))))))))"

definition uuid :: validator where
  "uuid = regexp uuid_pattern"

section \<open>URLs\<close>

text \<open>
  \<^verbatim>\<open>try { ... } catch (_e) { ... }\<close>, and \<^verbatim>\<open>$url\<close>. The URL parser belongs to the host:
  \<open>new_URL\<close> stands for the constructor, which returns a URL or throws.
\<close>

definition try_catch :: "'a result \<Rightarrow> (exn \<Rightarrow> 'a result) \<Rightarrow> 'a result" where
  "try_catch body handler = (case body of Inl e \<Rightarrow> handler e | Inr a \<Rightarrow> Inr a)"

definition url :: "(jsstring \<Rightarrow> 'u result) \<Rightarrow> validator" where
  "url new_URL val =
     (if typeof val \<noteq> ''string'' then Inr False
      else (case val of
              JString s \<Rightarrow> try_catch (and_then (new_URL s) (\<lambda>u. Inr True)) (\<lambda>e. Inr False)
            | _ \<Rightarrow> Inr False))"

section \<open>Host operations on composite values\<close>

text \<open>The decimal name of an array index.\<close>

fun string_of_nat :: "nat \<Rightarrow> jsstring" where
  "string_of_nat n =
     (if n < 10 then [of_nat (0x30 + n)]
      else string_of_nat (n div 10) @ [of_nat (0x30 + n mod 10)])"

declare string_of_nat.simps [simp del]

definition array_entries :: "jsval list \<Rightarrow> (jsstring \<times> jsval) list" where
  "array_entries elems = zip (map string_of_nat [0..<length elems]) elems"

text \<open>
  The own enumerable string-keyed properties of a value that is neither \<^verbatim>\<open>null\<close> nor
  \<^verbatim>\<open>undefined\<close>, in the order of \<^verbatim>\<open>Object.keys\<close>: of an array the elements under their
  indices and then the further ones. A string has its characters under their indices;
  the other primitive values have none, and none is recorded for a function.
\<close>

definition data :: "jsstring \<times> jsval \<Rightarrow> property" where
  "data entry = (fst entry, Inr (snd entry))"

fun own_properties :: "jsval \<Rightarrow> property list" where
  "own_properties (JObject own chain) = own"
| "own_properties (JArray elems extra chain) = map data (array_entries elems) @ extra"
| "own_properties (JString s) = map data (array_entries (map (\<lambda>c. JString [c]) s))"
| "own_properties v = []"

text \<open>
  \<^verbatim>\<open>Object.keys\<close> lists the keys and reads no property. \<^verbatim>\<open>Object.entries\<close> reads every
  property in that order, and the first read that throws ends it. Both throw on \<^verbatim>\<open>null\<close>
  and \<^verbatim>\<open>undefined\<close>.
\<close>

primrec read_all :: "property list \<Rightarrow> (jsstring \<times> jsval) list result" where
  "read_all [] = Inr []"
| "read_all (property # rest) =
     and_then (snd property) (\<lambda>v.
     and_then (read_all rest) (\<lambda>entries. Inr ((fst property, v) # entries)))"

definition Object_entries :: "jsval \<Rightarrow> (jsstring \<times> jsval) list result" where
  "Object_entries val =
     (if loosely_null val then Inl TypeError else read_all (own_properties val))"

definition Object_keys :: "jsval \<Rightarrow> jsstring list result" where
  "Object_keys val =
     (if loosely_null val then Inl TypeError else Inr (map fst (own_properties val)))"

text \<open>
  \<^verbatim>\<open>val?.[key]\<close>: \<^verbatim>\<open>undefined\<close> on \<^verbatim>\<open>null\<close> and \<^verbatim>\<open>undefined\<close>; on a composite value the
  result of reading the own property, else the property found further up, else
  \<^verbatim>\<open>undefined\<close>. (The source reads properties of composite values only; the last equation
  is not reached.)
\<close>

fun get_optional :: "jsval \<Rightarrow> jsstring \<Rightarrow> jsval result" where
  "get_optional (JObject own chain) key =
     (case map_of own key of
        Some r \<Rightarrow> r
      | None \<Rightarrow> (case map_of chain key of Some r \<Rightarrow> r | None \<Rightarrow> Inr JUndefined))"
| "get_optional (JArray elems extra chain) key =
     (case map_of (array_entries elems) key of
        Some v \<Rightarrow> Inr v
      | None \<Rightarrow>
          if key = str ''length'' then Inr (JNumber (Finite (real (length elems))))
          else (case map_of extra key of
                  Some r \<Rightarrow> r
                | None \<Rightarrow>
                    (case map_of chain key of Some r \<Rightarrow> r | None \<Rightarrow> Inr JUndefined)))"
| "get_optional v key = Inr JUndefined"

text \<open>
  \<^verbatim>\<open>val.values()\<close> and \<^verbatim>\<open>val.entries()\<close> on an array, as the source of a loop: the property
  is read, what is read is called (calling what is not a function throws), and the loop
  sees the elements, or the indices paired with the elements, when the function is the
  built-in method, and what the function is recorded with otherwise.
\<close>

definition method_of :: "jsval \<Rightarrow> jsstring \<Rightarrow> callee result" where
  "method_of val name =
     and_then (get_optional val name)
       (\<lambda>f. case f of JFunction c \<Rightarrow> Inr c | _ \<Rightarrow> Inl TypeError)"

fun elements :: "jsval \<Rightarrow> jsval list" where
  "elements (JArray elems extra chain) = elems"
| "elements v = []"

definition index_pair :: "nat \<times> jsval \<Rightarrow> jsval \<times> jsval" where
  "index_pair entry = (JNumber (Finite (real (fst entry))), snd entry)"

definition values_of :: "jsval \<Rightarrow> (jsval list \<times> exn option) result" where
  "values_of val =
     and_then (method_of val (str ''values''))
       (\<lambda>c. case c of
              Builtin \<Rightarrow> Inr (elements val, None)
            | Opaque seen_values seen_pairs \<Rightarrow> Inr seen_values)"

definition entries_of :: "jsval \<Rightarrow> ((jsval \<times> jsval) list \<times> exn option) result" where
  "entries_of val =
     and_then (method_of val (str ''entries''))
       (\<lambda>c. case c of
              Builtin \<Rightarrow> Inr (map index_pair (enumerate 0 (elements val)), None)
            | Opaque seen_values seen_pairs \<Rightarrow> Inr seen_pairs)"

text \<open>The end of a loop with a flag: the exception that ended it, or \<^verbatim>\<open>return !failed\<close>.\<close>

definition return_not :: "exn option \<Rightarrow> bool \<Rightarrow> bool result" where
  "return_not thrown failed = (case thrown of Some e \<Rightarrow> Inl e | None \<Rightarrow> Inr (\<not> failed))"

section \<open>Structural validators\<close>

text \<open>
  \<^verbatim>\<open>$object\<close>. The validator map is the list of its entries in the order of
  \<^verbatim>\<open>Object.entries\<close>. The loop carries the set \<^verbatim>\<open>unchecked\<close> (a list without repetition,
  \<^verbatim>\<open>delete\<close> removes a key) and the flag \<^verbatim>\<open>failed\<close>; the property is read before the
  validator is called.
\<close>

primrec object_loop ::
  "(jsstring \<times> validator) list \<Rightarrow> jsval \<Rightarrow> jsstring list \<Rightarrow> bool
     \<Rightarrow> (jsstring list \<times> bool) result" where
  "object_loop [] val unchecked failed = Inr (unchecked, failed)"
| "object_loop (entry # rest) val unchecked failed =
     (if fst entry = str ''__proto__'' then object_loop rest val unchecked failed
      else and_then (get_optional val (fst entry)) (\<lambda>property.
           and_then ((snd entry) property)
             (\<lambda>ok. object_loop rest val (removeAll (fst entry) unchecked)
                     (if \<not> ok then True else failed))))"

definition object :: "(jsstring \<times> validator) list \<Rightarrow> bool \<Rightarrow> validator" where
  "object validatorMap exact val =
     (if typeof val \<noteq> ''object'' \<or> loosely_null val then Inr False
      else and_then (Object_keys val) (\<lambda>keys.
           and_then (object_loop validatorMap val (remdups keys) False) (\<lambda>(unchecked, failed).
             if failed then Inr False
             else if exact then Inr (length unchecked = 0)
             else Inr True)))"

text \<open>\<^verbatim>\<open>$array\<close>: every value that \<^verbatim>\<open>val.values()\<close> gives is checked, with a flag.\<close>

primrec array_loop :: "validator \<Rightarrow> jsval list \<Rightarrow> bool \<Rightarrow> bool result" where
  "array_loop child [] failed = Inr failed"
| "array_loop child (value # rest) failed =
     and_then (child value) (\<lambda>ok. array_loop child rest (if \<not> ok then True else failed))"

definition array :: "validator \<Rightarrow> validator" where
  "array child val =
     (case val of
        JArray elems extra chain \<Rightarrow>
          and_then (values_of val) (\<lambda>(values, thrown).
          and_then (array_loop child values False) (return_not thrown))
      | _ \<Rightarrow> Inr False)"

record ArrayLengthArgs =
  length_min :: "jsnum option"
  length_max :: "jsnum option"
  child :: validator

text \<open>\<^verbatim>\<open>val.length\<close>, read once \<^verbatim>\<open>$array\<close> has accepted \<^verbatim>\<open>val\<close>, which is an array then.\<close>

fun array_length :: "jsval \<Rightarrow> jsnum" where
  "array_length (JArray elems extra chain) = Finite (real (length elems))"
| "array_length v = NaN"

definition arrayLength :: "ArrayLengthArgs \<Rightarrow> validator" where
  "arrayLength args val =
     and_also
       (and_also (array (child args) val)
          (Inr (case length_min args of None \<Rightarrow> True
                | Some lo \<Rightarrow> num_le lo (array_length val))))
       (Inr (case length_max args of None \<Rightarrow> True
             | Some hi \<Rightarrow> num_le (array_length val) hi))"

text \<open>
  \<^verbatim>\<open>$record\<close>: the key check is \<^verbatim>\<open>$union([$string, $number, $symbol])\<close>, applied to the
  key, which is a string.
\<close>

definition keyValidator :: validator where
  "keyValidator = union [string, number, symbol]"

primrec record_loop :: "validator \<Rightarrow> (jsstring \<times> jsval) list \<Rightarrow> bool \<Rightarrow> bool result" where
  "record_loop valueValidator [] failed = Inr failed"
| "record_loop valueValidator (entry # rest) failed =
     (if fst entry = str ''__proto__'' then record_loop valueValidator rest failed
      else and_then (keyValidator (JString (fst entry))) (\<lambda>key_ok.
           and_then (valueValidator (snd entry)) (\<lambda>value_ok.
             record_loop valueValidator rest
               (if \<not> value_ok then True else if \<not> key_ok then True else failed))))"

definition record_v :: "validator \<Rightarrow> validator" where
  "record_v valueValidator val =
     (if typeof val \<noteq> ''object'' \<or> val = JNull then Inr False
      else and_then (Object_entries val) (\<lambda>entries.
           and_then (record_loop valueValidator entries False) (\<lambda>failed. Inr (\<not> failed))))"

text \<open>
  \<^verbatim>\<open>$tuple\<close>. \<^verbatim>\<open>children[key]\<close> is the child at \<open>key\<close> when the key is a number that is the
  index of a child, and \<^verbatim>\<open>undefined\<close>, which throws when it is called, when it is an
  index beyond the last child. The built-in \<^verbatim>\<open>entries\<close> gives no other key. For any other
  key the host decides what is found (it turns the key into a property name and looks
  that up in the list of children and in the array prototype): \<open>other\<close> stands for it.
\<close>

definition child_at ::
  "(validator list \<Rightarrow> jsval \<Rightarrow> validator) \<Rightarrow> validator list \<Rightarrow> jsval \<Rightarrow> validator" where
  "child_at other children key =
     (case key of
        JNumber (Finite x) \<Rightarrow>
          if 0 \<le> x \<and> x = real (nat \<lfloor>x\<rfloor>) then
            (if nat \<lfloor>x\<rfloor> < length children then children ! nat \<lfloor>x\<rfloor>
             else (\<lambda>val. Inl TypeError))
          else other children key
      | _ \<Rightarrow> other children key)"

primrec tuple_loop ::
  "(validator list \<Rightarrow> jsval \<Rightarrow> validator) \<Rightarrow> validator list \<Rightarrow> (jsval \<times> jsval) list
     \<Rightarrow> bool \<Rightarrow> bool result" where
  "tuple_loop other children [] failed = Inr failed"
| "tuple_loop other children (entry # rest) failed =
     and_then (child_at other children (fst entry) (snd entry))
       (\<lambda>ok. tuple_loop other children rest (if \<not> ok then True else failed))"

definition tuple ::
  "(validator list \<Rightarrow> jsval \<Rightarrow> validator) \<Rightarrow> validator list \<Rightarrow> validator" where
  "tuple other children val =
     (case val of
        JArray elems extra chain \<Rightarrow>
          if length elems \<noteq> length children then Inr False
          else and_then (entries_of val) (\<lambda>(entries, thrown).
               and_then (tuple_loop other children entries False) (return_not thrown))
      | _ \<Rightarrow> Inr False)"

text \<open>
  The two methods that the validators call, as an array of the host inherits them from
  the array prototype.
\<close>

definition array_methods :: "property list" where
  "array_methods =
     [(str ''values'', Inr (JFunction Builtin)), (str ''entries'', Inr (JFunction Builtin))]"

text \<open>
  Plain data: a value that is not composite, or an object or array whose properties all
  hold plain data and are read without throwing, an array with the built-in \<^verbatim>\<open>values\<close> and
  \<^verbatim>\<open>entries\<close>.
\<close>

inductive plain :: "jsval \<Rightarrow> bool" where
  "typeof val \<noteq> ''object'' \<or> val = JNull \<Longrightarrow> plain val"
| "\<forall>property \<in> set own \<union> set chain. \<exists>v. snd property = Inr v \<and> plain v
     \<Longrightarrow> plain (JObject own chain)"
| "\<forall>element \<in> set elems. plain element
     \<Longrightarrow> \<forall>property \<in> set extra \<union> set chain. \<exists>v. snd property = Inr v \<and> plain v
     \<Longrightarrow> method_of (JArray elems extra chain) (str ''values'') = Inr Builtin
     \<Longrightarrow> method_of (JArray elems extra chain) (str ''entries'') = Inr Builtin
     \<Longrightarrow> plain (JArray elems extra chain)"

text \<open>A validator that returns on all plain data.\<close>

definition safe :: "validator \<Rightarrow> bool" where
  "safe v = (\<forall>val. plain val \<longrightarrow> (\<exists>b. v val = Inr b))"

section \<open>Descriptions of strings\<close>

text \<open>
  What the statements below say about strings: a decimal digit, the first character of
  a string, and what is left of a string after its leading white space and one sign.
\<close>

definition decimal_digit :: "jschar \<Rightarrow> bool" where
  "decimal_digit c = (0x30 \<le> c \<and> c \<le> 0x39)"

definition first_is :: "(jschar \<Rightarrow> bool) \<Rightarrow> jsstring \<Rightarrow> bool" where
  "first_is p s = (case s of [] \<Rightarrow> False | c # rest \<Rightarrow> p c)"

definition after_sign :: "jsstring \<Rightarrow> jsstring" where
  "after_sign s =
     (case dropWhile is_white_space s of
        [] \<Rightarrow> []
      | c # rest \<Rightarrow> if c = 0x2B \<or> c = 0x2D then rest else c # rest)"

text \<open>
  A string in the canonical form of a UUID: groups of 8, 4, 4, 4 and 12 lower-case
  hexadecimal digits, with hyphens between them. A string of the form of an e-mail
  address: a local part, \<^verbatim>\<open>@\<close>, a domain, a dot and a last part, the three parts not
  empty and free of white space and of \<^verbatim>\<open>@\<close>.
\<close>

definition uuid_shaped :: "jsstring \<Rightarrow> bool" where
  "uuid_shaped u =
     (\<exists>a b c d e. u = a @ [0x2D] @ b @ [0x2D] @ c @ [0x2D] @ d @ [0x2D] @ e
        \<and> length a = 8 \<and> length b = 4 \<and> length c = 4 \<and> length d = 4 \<and> length e = 12
        \<and> list_all hex_digit (a @ b @ c @ d @ e))"

definition email_shaped :: "jsstring \<Rightarrow> bool" where
  "email_shaped s =
     (\<exists>l d t. s = l @ [0x40] @ d @ [0x2E] @ t \<and> l \<noteq> [] \<and> d \<noteq> [] \<and> t \<noteq> []
        \<and> list_all not_space_at (l @ d @ t))"

section \<open>Matches as a relation between positions\<close>

text \<open>
  For the proofs about patterns: \<open>rel r s\<close> relates the position where a match of \<open>r\<close> in
  \<open>s\<close> starts to the position where it ends, \<open>reach\<close> is membership in it, and a string
  \<open>fits\<close> a pattern when the pattern matches it from end to end wherever it occurs.
  \<open>email_positions s i j\<close> places the \<^verbatim>\<open>@\<close> of an address at \<open>i\<close> and its last dot at \<open>j\<close>.
\<close>

primrec rel :: "regexp \<Rightarrow> jsstring \<Rightarrow> (nat \<times> nat) set" where
  "rel (Class p) s = {(i, j). j = Suc i \<and> i < length s \<and> p (s ! i)}"
| "rel (Seq r1 r2) s = rel r1 s O rel r2 s"
| "rel (Plus r) s = (\<Union>n \<in> {0..<Suc (length s)}. rel r s ^^ Suc n)"
| "rel (Repeat n r) s = rel r s ^^ n"
| "rel (Group r) s = rel r s"
| "rel LineStart s = {(0, 0)}"
| "rel LineEnd s = {(length s, length s)}"

definition reach :: "regexp \<Rightarrow> jsstring \<Rightarrow> nat \<Rightarrow> nat \<Rightarrow> bool" where
  "reach r s i j = ((i, j) \<in> rel r s)"

definition fits :: "regexp \<Rightarrow> jsstring \<Rightarrow> bool" where
  "fits r w = (\<forall>pre post. reach r (pre @ w @ post) (length pre) (length pre + length w))"

definition email_positions :: "jsstring \<Rightarrow> nat \<Rightarrow> nat \<Rightarrow> bool" where
  "email_positions s i j =
     (0 < i \<and> Suc i < j \<and> Suc j < length s \<and> s ! i = 0x40 \<and> s ! j = 0x2E
      \<and> (\<forall>k. k < i \<longrightarrow> not_space_at (s ! k))
      \<and> (\<forall>k. Suc i \<le> k \<and> k < j \<longrightarrow> not_space_at (s ! k))
      \<and> (\<forall>k. Suc j \<le> k \<and> k < length s \<longrightarrow> not_space_at (s ! k)))"

section \<open>Properties\<close>

subsection \<open>Results\<close>

lemma and_then_Inr [simp]: "and_then (Inr a) k = k a"
  by (simp add: and_then_def)

lemma and_then_Inl [simp]: "and_then (Inl e) k = Inl e"
  by (simp add: and_then_def)

lemma or_else_Inr [simp]: "or_else (Inr a) b = (if a then Inr True else b)"
  by (simp add: or_else_def)

lemma and_also_Inr [simp]: "and_also (Inr a) b = (if a then b else Inr False)"
  by (simp add: and_also_def)

lemma ex_bool [simp]: "\<exists>b. b" "\<exists>b. \<not> b" "Ex Not"
  by auto

lemma lift_apply [simp]: "lift p val = Inr (p val)"
  by (simp add: lift_def)

subsection \<open>Union and intersection\<close>

lemma intersection_loop_lift:
  "intersection_loop (map lift ps) val failed = Inr (failed \<or> (\<exists>p \<in> set ps. \<not> p val))"
  by (induction ps arbitrary: failed) auto

text \<open>
  C9. On the empty list of validators \<^verbatim>\<open>$union\<close> rejects every value and
  \<^verbatim>\<open>$intersection\<close> accepts every value.
\<close>

theorem union_intersection_empty:
  "union [] val = Inr False \<and> intersection [] val = Inr True"
  by (simp add: intersection_def)

text \<open>
  C1. For pure validators \<open>a\<close> and \<open>b\<close> and every value, \<^verbatim>\<open>$union([a, b])\<close> returns
  \<open>a val \<or> b val\<close> and \<^verbatim>\<open>$intersection([a, b])\<close> returns \<open>a val \<and> b val\<close>; returning at the
  first accepting validator gives \<^verbatim>\<open>$union\<close> the result of evaluating
  \<^verbatim>\<open>a(val) || b(val)\<close>, whatever the two validators do.
\<close>

theorem union_intersection_duality:
  "union [lift a, lift b] val = Inr (a val \<or> b val)
   \<and> intersection [lift a, lift b] val = Inr (a val \<and> b val)
   \<and> union [v, w] val = or_else (v val) (w val)"
  by (auto simp: intersection_def or_else_def and_then_def split: sum.splits)

text \<open>
  C3. \<^verbatim>\<open>$optional(v)\<close> returns true exactly on \<^verbatim>\<open>null\<close>, on \<^verbatim>\<open>undefined\<close> and where \<open>v\<close>
  returns true; \<^verbatim>\<open>$nullable(v)\<close> returns true exactly on \<^verbatim>\<open>null\<close> and where \<open>v\<close> returns
  true. On \<^verbatim>\<open>undefined\<close> the first accepts and the second does what \<open>v\<close> does.
\<close>

theorem optional_nullable_spec:
  "(optional v val = Inr True) = (val = JNull \<or> val = JUndefined \<or> v val = Inr True)
   \<and> (nullable v val = Inr True) = (val = JNull \<or> v val = Inr True)
   \<and> optional v JUndefined = Inr True
   \<and> nullable v JUndefined = v JUndefined"
  by (cases val) (auto simp: optional_def nullable_def null_def or_else_def and_then_def
      split: sum.splits)

subsection \<open>Objects and records\<close>

lemma keyValidator_string: "keyValidator (JString k) = Inr True"
  by (simp add: keyValidator_def string_def)

lemma never_throws_lift: "never_throws (lift p)"
  by (simp add: never_throws_def)

lemma object_loop_skip:
  "object_loop (filter (\<lambda>entry. fst entry \<noteq> str ''__proto__'') validatorMap) val unchecked failed
     = object_loop validatorMap val unchecked failed"
  by (induction validatorMap arbitrary: "unchecked" failed) simp_all

lemma record_loop_skip:
  "record_loop valueValidator (filter (\<lambda>entry. fst entry \<noteq> str ''__proto__'') entries) failed
     = record_loop valueValidator entries failed"
  by (induction entries arbitrary: failed) simp_all

text \<open>
  Reading the properties without the readable ones named \<^verbatim>\<open>__proto__\<close> gives the same
  exception, or the same entries without those named \<^verbatim>\<open>__proto__\<close>.
\<close>

lemma read_all_skip:
  "read_all (filter (\<lambda>property. fst property \<noteq> str ''__proto__'' \<or> isl (snd property))
       properties)
     = and_then (read_all properties)
         (\<lambda>entries. Inr (filter (\<lambda>entry. fst entry \<noteq> str ''__proto__'') entries))"
proof (induction properties)
  case Nil
  show ?case by simp
next
  case (Cons property rest)
  show ?case
  proof (cases "snd property")
    case (Inl e)
    then show ?thesis by simp
  next
    case (Inr v)
    then show ?thesis
      using Cons.IH by (cases "read_all rest") auto
  qed
qed

lemma read_all_data: "read_all (map data entries) = Inr entries"
  by (induction entries) (simp_all add: data_def)

text \<open>
  The loop of \<^verbatim>\<open>$object\<close> over children that return, on a value whose declared properties
  are read without throwing: the keys left in \<^verbatim>\<open>unchecked\<close> are \<^verbatim>\<open>__proto__\<close> and the keys
  that the map does not declare, and the flag is set when a child other than the one
  under \<^verbatim>\<open>__proto__\<close> rejects its property.
\<close>

lemma object_loop_total:
  assumes "\<forall>entry \<in> set validatorMap. never_throws (snd entry)"
    and "\<forall>entry \<in> set validatorMap. fst entry \<noteq> str ''__proto__''
           \<longrightarrow> (\<exists>v. get_optional val (fst entry) = Inr v)"
  shows "object_loop validatorMap val unchecked failed
    = Inr (filter (\<lambda>key. key = str ''__proto__'' \<or> key \<notin> fst ` set validatorMap) unchecked,
           failed \<or> (\<exists>entry \<in> set validatorMap. fst entry \<noteq> str ''__proto__''
                        \<and> (\<exists>v. get_optional val (fst entry) = Inr v
                               \<and> snd entry v = Inr False)))"
  using assms
proof (induction validatorMap arbitrary: "unchecked" failed)
  case Nil
  then show ?case by simp
next
  case (Cons entry rest)
  have rest: "\<forall>entry \<in> set rest. never_throws (snd entry)"
    "\<forall>entry \<in> set rest. fst entry \<noteq> str ''__proto__''
       \<longrightarrow> (\<exists>v. get_optional val (fst entry) = Inr v)"
    using Cons.prems by simp_all
  note IH = Cons.IH [OF rest]
  show ?case
  proof (cases "fst entry = str ''__proto__''")
    case True
    then show ?thesis by (auto simp: IH intro!: filter_cong)
  next
    case False
    then obtain v where v: "get_optional val (fst entry) = Inr v"
      using Cons.prems(2) by auto
    have "never_throws (snd entry)" using Cons.prems(1) by simp
    then obtain b where b: "snd entry v = Inr b"
      unfolding never_throws_def by blast
    show ?thesis
      using False v b by (auto simp: IH removeAll_filter_not_eq intro!: filter_cong)
  qed
qed

text \<open>A declared property whose read throws makes the loop throw.\<close>

lemma object_loop_throws:
  assumes "\<forall>entry \<in> set validatorMap. never_throws (snd entry)"
    and "\<exists>entry \<in> set validatorMap. fst entry \<noteq> str ''__proto__''
           \<and> isl (get_optional val (fst entry))"
  shows "\<exists>e. object_loop validatorMap val unchecked failed = Inl e"
  using assms
proof (induction validatorMap arbitrary: "unchecked" failed)
  case Nil
  then show ?case by simp
next
  case (Cons entry rest)
  have nt: "\<forall>entry \<in> set rest. never_throws (snd entry)"
    using Cons.prems(1) by simp
  show ?case
  proof (cases "fst entry \<noteq> str ''__proto__'' \<and> isl (get_optional val (fst entry))")
    case True
    then obtain e where "get_optional val (fst entry) = Inl e"
      by (cases "get_optional val (fst entry)") auto
    with True show ?thesis by simp
  next
    case False
    then have later: "\<exists>entry \<in> set rest. fst entry \<noteq> str ''__proto__''
           \<and> isl (get_optional val (fst entry))"
      using Cons.prems(2) by auto
    note IH = Cons.IH [OF nt later]
    show ?thesis
    proof (cases "fst entry = str ''__proto__''")
      case True
      then show ?thesis using IH by simp
    next
      case proto: False
      with False obtain v where v: "get_optional val (fst entry) = Inr v"
        by (cases "get_optional val (fst entry)") auto
      have "never_throws (snd entry)" using Cons.prems(1) by simp
      then obtain b where b: "snd entry v = Inr b"
        unfolding never_throws_def by blast
      show ?thesis using proto v b IH by simp
    qed
  qed
qed

text \<open>Whatever the children do, the loop leaves \<^verbatim>\<open>__proto__\<close> in \<^verbatim>\<open>unchecked\<close>.\<close>

lemma object_loop_keeps_proto:
  "object_loop validatorMap val unchecked failed = Inr (left, flag)
     \<Longrightarrow> str ''__proto__'' \<in> set unchecked \<Longrightarrow> str ''__proto__'' \<in> set left"
proof (induction validatorMap arbitrary: "unchecked" failed)
  case Nil
  then show ?case by simp
next
  case (Cons entry rest)
  show ?case
  proof (cases "fst entry = str ''__proto__''")
    case True
    with Cons show ?thesis by simp
  next
    case False
    from Cons.prems(1) False obtain v where v: "get_optional val (fst entry) = Inr v"
      by (cases "get_optional val (fst entry)") auto
    from Cons.prems(1) False v obtain ok where ok: "snd entry v = Inr ok"
      by (cases "snd entry v") auto
    have "object_loop rest val (removeAll (fst entry) unchecked)
              (if \<not> ok then True else failed) = Inr (left, flag)"
      using Cons.prems(1) False v ok by simp
    moreover have "str ''__proto__'' \<in> set (removeAll (fst entry) unchecked)"
      using Cons.prems(2) False by auto
    ultimately show ?thesis by (rule Cons.IH)
  qed
qed

lemma object_lift:
  assumes "\<forall>entry \<in> set shape. fst entry \<noteq> str ''__proto__''
             \<longrightarrow> (\<exists>v. get_optional val (fst entry) = Inr v)"
  shows "object (map (\<lambda>entry. (fst entry, lift (snd entry))) shape) exact val
     = Inr (typeof val = ''object'' \<and> val \<noteq> JNull
          \<and> (\<forall>entry \<in> set shape. fst entry \<noteq> str ''__proto__''
                 \<longrightarrow> (\<exists>v. get_optional val (fst entry) = Inr v \<and> snd entry v))
          \<and> (exact \<longrightarrow> (\<forall>key \<in> fst ` set (own_properties val).
                 key \<noteq> str ''__proto__'' \<and> key \<in> fst ` set shape)))"
proof (cases "typeof val \<noteq> ''object'' \<or> loosely_null val")
  case True
  then show ?thesis by (cases val) (auto simp: object_def)
next
  case False
  let ?vm = "map (\<lambda>entry. (fst entry, lift (snd entry))) shape"
  have nt: "\<forall>entry \<in> set ?vm. never_throws (snd entry)"
    by (simp add: never_throws_lift)
  have reads: "\<forall>entry \<in> set ?vm. fst entry \<noteq> str ''__proto__''
           \<longrightarrow> (\<exists>v. get_optional val (fst entry) = Inr v)"
    using assms by simp
  have keys: "fst ` set ?vm = fst ` set shape"
    by (simp add: image_image)
  have failed: "(\<exists>entry \<in> set ?vm. fst entry \<noteq> str ''__proto__''
                   \<and> (\<exists>v. get_optional val (fst entry) = Inr v \<and> snd entry v = Inr False))
      = (\<not> (\<forall>entry \<in> set shape. fst entry \<noteq> str ''__proto__''
                 \<longrightarrow> (\<exists>v. get_optional val (fst entry) = Inr v \<and> snd entry v)))"
    (is "?rejected = (\<not> ?accepted)")
  proof
    assume ?rejected
    then show "\<not> ?accepted" by auto
  next
    assume "\<not> ?accepted"
    then obtain entry where entry: "entry \<in> set shape" "fst entry \<noteq> str ''__proto__''"
      "\<not> (\<exists>v. get_optional val (fst entry) = Inr v \<and> snd entry v)"
      by blast
    with assms obtain v where "get_optional val (fst entry) = Inr v"
      by blast
    with entry show ?rejected
      by (intro bexI [of _ "(fst entry, lift (snd entry))"]) auto
  qed
  have size: "(filter (\<lambda>key. key = str ''__proto__'' \<or> key \<notin> fst ` set shape)
                 (remdups (map fst (own_properties val))) = [])
      = (\<forall>key \<in> fst ` set (own_properties val).
                 key \<noteq> str ''__proto__'' \<and> key \<in> fst ` set shape)"
    unfolding filter_empty_conv by auto
  from False have "val \<noteq> JNull" by auto
  with False show ?thesis
    unfolding object_def Object_keys_def object_loop_total [OF nt reads] keys failed
    by (auto simp: size)
qed

lemma object_lift_throws:
  assumes "typeof val = ''object''" and "val \<noteq> JNull"
    and "\<exists>entry \<in> set shape. fst entry \<noteq> str ''__proto__''
           \<and> isl (get_optional val (fst entry))"
  shows "\<exists>e. object (map (\<lambda>entry. (fst entry, lift (snd entry))) shape) exact val = Inl e"
proof -
  let ?vm = "map (\<lambda>entry. (fst entry, lift (snd entry))) shape"
  have nt: "\<forall>entry \<in> set ?vm. never_throws (snd entry)"
    by (simp add: never_throws_lift)
  have "\<exists>entry \<in> set ?vm. fst entry \<noteq> str ''__proto__''
           \<and> isl (get_optional val (fst entry))"
    using assms(3) by auto
  then obtain e where
    "object_loop ?vm val (remdups (map fst (own_properties val))) False = Inl e"
    using object_loop_throws [OF nt] by blast
  moreover have "\<not> loosely_null val" using assms(1,2) by (cases val) auto
  ultimately show ?thesis
    using assms(1) by (simp add: object_def Object_keys_def)
qed

lemma record_loop_accept:
  "\<forall>entry \<in> set entries. valueValidator (snd entry) = Inr True
     \<Longrightarrow> record_loop valueValidator entries failed = Inr failed"
  by (induction entries arbitrary: failed) (simp_all add: keyValidator_string)

text \<open>
  C2, as the source has it. For pure validators, \<^verbatim>\<open>$object(shape, exact)\<close> accepts exactly
  the non-null values of kind object on which every declared key other than \<^verbatim>\<open>__proto__\<close>
  has its validator accept the property read under that key, and, when \<open>exact\<close> holds,
  whose own enumerable keys are all declared and other than \<^verbatim>\<open>__proto__\<close>. A property
  that is found neither on the object nor further up is read as \<^verbatim>\<open>undefined\<close>. This is
  so when the declared properties other than \<^verbatim>\<open>__proto__\<close> are read without throwing;
  when the read of one of them throws, the call throws.
\<close>

theorem object_spec:
  "((\<forall>entry \<in> set shape. fst entry \<noteq> str ''__proto__''
        \<longrightarrow> (\<exists>v. get_optional val (fst entry) = Inr v))
    \<longrightarrow> object (map (\<lambda>entry. (fst entry, lift (snd entry))) shape) exact val
     = Inr (typeof val = ''object'' \<and> val \<noteq> JNull
          \<and> (\<forall>entry \<in> set shape. fst entry \<noteq> str ''__proto__''
                 \<longrightarrow> (\<exists>v. get_optional val (fst entry) = Inr v \<and> snd entry v))
          \<and> (exact \<longrightarrow> (\<forall>key \<in> fst ` set (own_properties val).
                 key \<noteq> str ''__proto__'' \<and> key \<in> fst ` set shape))))
   \<and> (typeof val = ''object'' \<and> val \<noteq> JNull
        \<and> (\<exists>entry \<in> set shape. fst entry \<noteq> str ''__proto__''
              \<and> isl (get_optional val (fst entry)))
      \<longrightarrow> (\<exists>e. object (map (\<lambda>entry. (fst entry, lift (snd entry))) shape) exact val = Inl e))
   \<and> (key \<notin> fst ` set own \<and> key \<notin> fst ` set chain
        \<longrightarrow> get_optional (JObject own chain) key = Inr JUndefined)"
proof (intro conjI impI)
  assume "\<forall>entry \<in> set shape. fst entry \<noteq> str ''__proto__''
        \<longrightarrow> (\<exists>v. get_optional val (fst entry) = Inr v)"
  then show "object (map (\<lambda>entry. (fst entry, lift (snd entry))) shape) exact val
     = Inr (typeof val = ''object'' \<and> val \<noteq> JNull
          \<and> (\<forall>entry \<in> set shape. fst entry \<noteq> str ''__proto__''
                 \<longrightarrow> (\<exists>v. get_optional val (fst entry) = Inr v \<and> snd entry v))
          \<and> (exact \<longrightarrow> (\<forall>key \<in> fst ` set (own_properties val).
                 key \<noteq> str ''__proto__'' \<and> key \<in> fst ` set shape)))"
    by (rule object_lift)
next
  assume "typeof val = ''object'' \<and> val \<noteq> JNull
        \<and> (\<exists>entry \<in> set shape. fst entry \<noteq> str ''__proto__''
              \<and> isl (get_optional val (fst entry)))"
  then show "\<exists>e. object (map (\<lambda>entry. (fst entry, lift (snd entry))) shape) exact val = Inl e"
    using object_lift_throws by blast
next
  assume "key \<notin> fst ` set own \<and> key \<notin> fst ` set chain"
  moreover have "key \<notin> fst ` set ps \<Longrightarrow> map_of ps key = None" for ps :: "property list"
    by (simp add: map_of_eq_None_iff)
  ultimately show "get_optional (JObject own chain) key = Inr JUndefined"
    by simp
qed

text \<open>
  The example of the specification: with the shape \<^verbatim>\<open>{name: string, age: number}\<close>, an
  input with the extra key \<^verbatim>\<open>extra\<close> passes without exactness and fails with it, and an
  input without \<^verbatim>\<open>age\<close> fails both ways. On an input whose \<^verbatim>\<open>name\<close> is an accessor that
  throws, the call throws.
\<close>

theorem object_spec_witness:
  "object (map (\<lambda>entry. (fst entry, lift (snd entry)))
       [(str ''name'', \<lambda>v. typeof v = ''string''), (str ''age'', \<lambda>v. typeof v = ''number'')])
     False
     (JObject [(str ''name'', Inr (JString (str ''A''))), (str ''age'', Inr (JNumber (Finite 1))),
               (str ''extra'', Inr (JNumber (Finite 1)))] []) = Inr True
   \<and> object (map (\<lambda>entry. (fst entry, lift (snd entry)))
       [(str ''name'', \<lambda>v. typeof v = ''string''), (str ''age'', \<lambda>v. typeof v = ''number'')])
     True
     (JObject [(str ''name'', Inr (JString (str ''A''))), (str ''age'', Inr (JNumber (Finite 1))),
               (str ''extra'', Inr (JNumber (Finite 1)))] []) = Inr False
   \<and> object (map (\<lambda>entry. (fst entry, lift (snd entry)))
       [(str ''name'', \<lambda>v. typeof v = ''string''), (str ''age'', \<lambda>v. typeof v = ''number'')])
     False (JObject [(str ''name'', Inr (JString (str ''A'')))] []) = Inr False
   \<and> object (map (\<lambda>entry. (fst entry, lift (snd entry)))
       [(str ''name'', \<lambda>v. typeof v = ''string''), (str ''age'', \<lambda>v. typeof v = ''number'')])
     True (JObject [(str ''name'', Inr (JString (str ''A'')))] []) = Inr False
   \<and> get_optional (JObject [(str ''name'', Inr (JString (str ''A'')))] []) (str ''age'')
       = Inr JUndefined
   \<and> (\<exists>e. object (map (\<lambda>entry. (fst entry, lift (snd entry)))
       [(str ''name'', \<lambda>v. typeof v = ''string''), (str ''age'', \<lambda>v. typeof v = ''number'')])
     False (JObject [(str ''name'', Inl (Thrown 0))] []) = Inl e)"
proof -
  let ?shape = "[(str ''name'', \<lambda>v. typeof v = ''string''), (str ''age'', \<lambda>v. typeof v = ''number'')]"
  let ?extra = "JObject [(str ''name'', Inr (JString (str ''A''))),
               (str ''age'', Inr (JNumber (Finite 1))),
               (str ''extra'', Inr (JNumber (Finite 1)))] []"
  let ?missing = "JObject [(str ''name'', Inr (JString (str ''A'')))] []"
  let ?throwing = "JObject [(str ''name'', Inl (Thrown 0))] []"
  note spec = object_spec [of ?shape _ _ "str ''age''" "[(str ''name'', Inr (JString (str ''A'')))]" "[]"]
  show ?thesis
    using spec [of ?extra False] spec [of ?extra True] spec [of ?missing False]
      spec [of ?missing True] spec [of ?throwing False]
    by (simp add: str_def)
qed

text \<open>
  C2 as it is stated fails on a shape that declares \<^verbatim>\<open>__proto__\<close>. The input is an empty
  object, on which \<^verbatim>\<open>__proto__\<close> reads as its prototype, an object: \<^verbatim>\<open>$string\<close>, declared
  under that key, rejects the property, and the input is accepted all the same.
\<close>

theorem object_declared_proto_counterexample:
  "object [(str ''__proto__'', string)] False
      (JObject [] [(str ''__proto__'', Inr (JObject [] []))]) = Inr True
   \<and> get_optional (JObject [] [(str ''__proto__'', Inr (JObject [] []))]) (str ''__proto__'')
       = Inr (JObject [] [])
   \<and> string (JObject [] []) = Inr False"
  by (simp add: object_def Object_keys_def string_def)

text \<open>
  C7. A shape entry named \<^verbatim>\<open>__proto__\<close> is as good as absent, whatever validator it holds
  (one that throws included): \<^verbatim>\<open>$object\<close> does the same with and without it. An own
  property of the input named \<^verbatim>\<open>__proto__\<close> is as good as absent for \<^verbatim>\<open>$record\<close>, which
  checks neither its key nor its value: it does the same with and without the
  properties of that name, as far as \<^verbatim>\<open>Object.entries\<close> reads them without throwing (one
  whose read throws ends the call before any check).
\<close>

theorem proto_key_skipped:
  "object validatorMap exact val
     = object (filter (\<lambda>entry. fst entry \<noteq> str ''__proto__'') validatorMap) exact val
   \<and> ((\<forall>property \<in> set own. fst property = str ''__proto__'' \<longrightarrow> \<not> isl (snd property))
        \<longrightarrow> record_v valueValidator (JObject own chain)
          = record_v valueValidator
              (JObject (filter (\<lambda>property. fst property \<noteq> str ''__proto__'') own) chain))
   \<and> record_v valueValidator (JObject own chain)
     = record_v valueValidator
         (JObject (filter (\<lambda>property. fst property \<noteq> str ''__proto__'' \<or> isl (snd property))
            own) chain)"
proof (intro conjI impI)
  show "object validatorMap exact val
     = object (filter (\<lambda>entry. fst entry \<noteq> str ''__proto__'') validatorMap) exact val"
    by (simp add: object_def object_loop_skip)
  show general: "record_v valueValidator (JObject own chain)
     = record_v valueValidator
         (JObject (filter (\<lambda>property. fst property \<noteq> str ''__proto__'' \<or> isl (snd property))
            own) chain)"
    using read_all_skip [of own]
    by (cases "read_all own") (auto simp: record_v_def Object_entries_def record_loop_skip)
  assume "\<forall>property \<in> set own. fst property = str ''__proto__'' \<longrightarrow> \<not> isl (snd property)"
  then have "filter (\<lambda>property. fst property \<noteq> str ''__proto__'' \<or> isl (snd property)) own
      = filter (\<lambda>property. fst property \<noteq> str ''__proto__'') own"
    by (intro filter_cong) auto
  with general show "record_v valueValidator (JObject own chain)
          = record_v valueValidator
              (JObject (filter (\<lambda>property. fst property \<noteq> str ''__proto__'') own) chain)"
    by simp
qed

text \<open>
  A validator that throws, declared under \<^verbatim>\<open>__proto__\<close>, is not called; a string under
  the own key \<^verbatim>\<open>__proto__\<close> of the input passes \<^verbatim>\<open>$record($number)\<close>.
\<close>

theorem proto_key_skipped_witness:
  "object [(str ''__proto__'', \<lambda>v. Inl TypeError), (str ''name'', string)] False
     (JObject [(str ''name'', Inr (JString (str ''A'')))] []) = Inr True
   \<and> record_v number
     (JObject [(str ''__proto__'', Inr (JString (str ''x''))),
               (str ''k'', Inr (JNumber (Finite 1)))] [])
       = Inr True"
  using proto_key_skipped
    [of "[(str ''__proto__'', \<lambda>v. Inl TypeError), (str ''name'', string)]" False
        "JObject [(str ''name'', Inr (JString (str ''A'')))] []"
        "[(str ''__proto__'', Inr (JString (str ''x''))), (str ''k'', Inr (JNumber (Finite 1)))]"
        number "[]"]
  by (simp add: str_def object_def record_v_def Object_keys_def Object_entries_def string_def
      number_def keyValidator_def)

text \<open>
  C8. When the shape declares \<^verbatim>\<open>__proto__\<close> and exactness is asked for, an input with an
  own enumerable key \<^verbatim>\<open>__proto__\<close> is rejected: the key is never deleted from
  \<^verbatim>\<open>unchecked\<close>, so that the input is never accepted, and the call returns false when the
  children return and the declared properties are read without throwing.
\<close>

theorem object_exact_rejects_own_proto:
  assumes "str ''__proto__'' \<in> fst ` set validatorMap"
    and "str ''__proto__'' \<in> fst ` set own"
  shows "object validatorMap True (JObject own chain) \<noteq> Inr True
   \<and> ((\<forall>entry \<in> set validatorMap. never_throws (snd entry))
        \<and> (\<forall>entry \<in> set validatorMap. fst entry \<noteq> str ''__proto__''
              \<longrightarrow> (\<exists>v. get_optional (JObject own chain) (fst entry) = Inr v))
      \<longrightarrow> object validatorMap True (JObject own chain) = Inr False)"
proof (intro conjI impI)
  have own: "str ''__proto__'' \<in> set (remdups (map fst own))"
    using assms(2) by simp
  show "object validatorMap True (JObject own chain) \<noteq> Inr True"
  proof
    assume accepted: "object validatorMap True (JObject own chain) = Inr True"
    then obtain left flag where
      loop: "object_loop validatorMap (JObject own chain) (remdups (map fst own)) False
               = Inr (left, flag)"
      by (cases "object_loop validatorMap (JObject own chain) (remdups (map fst own)) False")
         (auto simp: object_def Object_keys_def)
    then have "str ''__proto__'' \<in> set left"
      using own by (rule object_loop_keeps_proto)
    then have "left \<noteq> []" by auto
    with accepted loop show False
      by (simp add: object_def Object_keys_def split: if_splits)
  qed
  assume "(\<forall>entry \<in> set validatorMap. never_throws (snd entry))
        \<and> (\<forall>entry \<in> set validatorMap. fst entry \<noteq> str ''__proto__''
              \<longrightarrow> (\<exists>v. get_optional (JObject own chain) (fst entry) = Inr v))"
  then have nt: "\<forall>entry \<in> set validatorMap. never_throws (snd entry)"
    and reads: "\<forall>entry \<in> set validatorMap. fst entry \<noteq> str ''__proto__''
              \<longrightarrow> (\<exists>v. get_optional (JObject own chain) (fst entry) = Inr v)"
    by simp_all
  have "filter (\<lambda>key. key = str ''__proto__'' \<or> key \<notin> fst ` set validatorMap)
          (remdups (map fst own)) \<noteq> []"
    using own unfolding filter_empty_conv by blast
  then show "object validatorMap True (JObject own chain) = Inr False"
    by (simp add: object_def Object_keys_def object_loop_total [OF nt reads])
qed

theorem object_exact_rejects_own_proto_witness:
  "object [(str ''name'', string), (str ''__proto__'', any)] True
     (JObject [(str ''name'', Inr (JString (str ''A''))), (str ''__proto__'', Inr JNull)] [])
       = Inr False"
proof -
  have "never_throws string" "never_throws any"
    by (auto simp: never_throws_def string_def any_def)
  then show ?thesis
    using object_exact_rejects_own_proto
      [of "[(str ''name'', string), (str ''__proto__'', any)]"
          "[(str ''name'', Inr (JString (str ''A''))), (str ''__proto__'', Inr JNull)]" "[]"]
    by (simp add: str_def)
qed

text \<open>
  C10, as the source has it. An array is of kind object and not null:
  \<^verbatim>\<open>$record(valueValidator)\<close> accepts every array without further own enumerable properties
  whose elements the value validator accepts, and \<^verbatim>\<open>$object({}, false)\<close> accepts every
  array.
\<close>

theorem arrays_are_composite:
  "((\<forall>value \<in> set elems. valueValidator value = Inr True)
      \<longrightarrow> record_v valueValidator (JArray elems [] chain) = Inr True)
   \<and> object [] False (JArray elems extra chain) = Inr True"
proof
  show "(\<forall>value \<in> set elems. valueValidator value = Inr True)
      \<longrightarrow> record_v valueValidator (JArray elems [] chain) = Inr True"
  proof
    assume ok: "\<forall>value \<in> set elems. valueValidator value = Inr True"
    have "\<forall>entry \<in> set (array_entries elems). valueValidator (snd entry) = Inr True"
      using ok by (auto simp: array_entries_def dest: set_zip_rightD)
    then show "record_v valueValidator (JArray elems [] chain) = Inr True"
      by (simp add: record_v_def Object_entries_def read_all_data record_loop_accept)
  qed
  show "object [] False (JArray elems extra chain) = Inr True"
    by (simp add: object_def Object_keys_def)
qed

text \<open>\<^verbatim>\<open>$record($number)([1, 2])\<close> is true, and so is \<^verbatim>\<open>$object({}, false)([1, 2])\<close>.\<close>

theorem arrays_are_composite_witness:
  "record_v number (JArray [JNumber (Finite 1), JNumber (Finite 2)] [] array_methods)
     = Inr True
   \<and> object [] False (JArray [JNumber (Finite 1), JNumber (Finite 2)] [] array_methods)
     = Inr True"
  using arrays_are_composite
    [of "[JNumber (Finite 1), JNumber (Finite 2)]" number array_methods "[]"]
  by (simp add: number_def)

text \<open>
  C10 as it is stated fails on an array with a further own enumerable property: after
  \<^verbatim>\<open>a = [1]; a.foo = "x"\<close> the only element of \<^verbatim>\<open>a\<close> is a number, and \<^verbatim>\<open>$record($number)\<close>
  rejects \<^verbatim>\<open>a\<close>, since \<^verbatim>\<open>Object.entries\<close> lists \<^verbatim>\<open>foo\<close>.
\<close>

theorem record_array_counterexample:
  "number (JNumber (Finite 1)) = Inr True
   \<and> record_v number
       (JArray [JNumber (Finite 1)] [(str ''foo'', Inr (JString (str ''x'')))] array_methods)
     = Inr False"
  by (simp add: record_v_def Object_entries_def array_entries_def data_def number_def
      string_of_nat.simps str_def keyValidator_def string_def)

subsection \<open>Numeric strings\<close>

lemma takeWhile_empty_iff: "(takeWhile p s = []) = (\<not> first_is p s)"
  by (cases s) (simp_all add: first_is_def)

lemma is_radix_digit_10: "is_radix_digit 10 = decimal_digit"
  unfolding is_radix_digit_def digit_value_def decimal_digit_def fun_eq_iff
  by (auto simp: word_le_nat_alt word_less_nat_alt)

lemma decimal_digit_plain:
  "decimal_digit c \<Longrightarrow> \<not> is_white_space c \<and> c \<noteq> 0x2B \<and> c \<noteq> 0x2D"
  unfolding decimal_digit_def is_white_space_def
  by (auto simp: word_le_nat_alt)

lemma parseInt_NaN:
  "(parseInt s = NaN) =
     (\<not> (if take 2 (after_sign s) = str ''0x'' \<or> take 2 (after_sign s) = str ''0X''
         then first_is (is_radix_digit 16) (drop 2 (after_sign s))
         else first_is decimal_digit (after_sign s)))"
proof -
  have "(case xs of c # rest \<Rightarrow> if c = 0x2B \<or> c = 0x2D then rest else xs | [] \<Rightarrow> xs)
      = (case xs of [] \<Rightarrow> [] | c # rest \<Rightarrow> if c = 0x2B \<or> c = 0x2D then rest else c # rest)"
    for xs :: jsstring
    by (cases xs) simp_all
  then have S: "(case dropWhile is_white_space s of
              c # rest \<Rightarrow> if c = 0x2B \<or> c = 0x2D then rest else dropWhile is_white_space s
            | [] \<Rightarrow> dropWhile is_white_space s) = after_sign s"
    by (simp only: after_sign_def)
  show ?thesis
    unfolding parseInt_def Let_def S
    by (simp add: takeWhile_empty_iff is_radix_digit_10)
qed

lemma numericString_string:
  "numericString (JString s) =
     Inr (if take 2 (after_sign s) = str ''0x'' \<or> take 2 (after_sign s) = str ''0X''
          then first_is (is_radix_digit 16) (drop 2 (after_sign s))
          else first_is decimal_digit (after_sign s))"
  by (simp add: numericString_def string_def Number_isNaN_def parseInt_NaN)

lemma numericString_other: "typeof val \<noteq> ''string'' \<Longrightarrow> numericString val = Inr False"
  by (simp add: numericString_def string_def)

text \<open>
  C5, as the source has it. \<^verbatim>\<open>$numericString\<close> accepts exactly the strings in which, after
  the leading white space and one sign, \<^verbatim>\<open>0x\<close> or \<^verbatim>\<open>0X\<close> and then a hexadecimal digit come
  first, or else a decimal digit with which neither \<^verbatim>\<open>0x\<close> nor \<^verbatim>\<open>0X\<close> begins. So a string that starts with a decimal digit is accepted
  whatever follows, unless it starts with \<^verbatim>\<open>0x\<close> or \<^verbatim>\<open>0X\<close> and no hexadecimal digit
  follows; a string whose first character is neither a decimal digit, white space nor a
  sign is rejected, the words \<^verbatim>\<open>NaN\<close> and \<^verbatim>\<open>Infinity\<close> among them.
\<close>

theorem numericString_spec:
  "numericString val =
     Inr (case val of
            JString s \<Rightarrow>
              if take 2 (after_sign s) = str ''0x'' \<or> take 2 (after_sign s) = str ''0X''
              then first_is (is_radix_digit 16) (drop 2 (after_sign s))
              else first_is decimal_digit (after_sign s)
          | _ \<Rightarrow> False)
   \<and> (decimal_digit c
        \<and> (take 2 (c # rest) = str ''0x'' \<or> take 2 (c # rest) = str ''0X''
             \<longrightarrow> first_is (is_radix_digit 16) (drop 2 (c # rest)))
      \<longrightarrow> numericString (JString (c # rest)) = Inr True)
   \<and> (\<not> decimal_digit c \<and> \<not> is_white_space c \<and> c \<noteq> 0x2B \<and> c \<noteq> 0x2D
      \<longrightarrow> numericString (JString (c # rest)) = Inr False)
   \<and> numericString (JString (str ''NaN'')) = Inr False
   \<and> numericString (JString (str ''Infinity'')) = Inr False"
proof (intro conjI impI)
  show "numericString val =
     Inr (case val of
            JString s \<Rightarrow>
              if take 2 (after_sign s) = str ''0x'' \<or> take 2 (after_sign s) = str ''0X''
              then first_is (is_radix_digit 16) (drop 2 (after_sign s))
              else first_is decimal_digit (after_sign s)
          | _ \<Rightarrow> False)"
    by (cases val) (simp_all add: numericString_string numericString_other)
next
  assume "decimal_digit c
        \<and> (take 2 (c # rest) = str ''0x'' \<or> take 2 (c # rest) = str ''0X''
             \<longrightarrow> first_is (is_radix_digit 16) (drop 2 (c # rest)))"
  moreover from this have "after_sign (c # rest) = c # rest"
    using decimal_digit_plain [of c] by (simp add: after_sign_def)
  ultimately show "numericString (JString (c # rest)) = Inr True"
    by (auto simp: numericString_string first_is_def)
next
  assume "\<not> decimal_digit c \<and> \<not> is_white_space c \<and> c \<noteq> 0x2B \<and> c \<noteq> 0x2D"
  moreover from this have "after_sign (c # rest) = c # rest"
    by (simp add: after_sign_def)
  moreover have "take 2 (c # rest) = str ''0x'' \<or> take 2 (c # rest) = str ''0X''
      \<Longrightarrow> decimal_digit c"
    by (cases rest) (auto simp: str_def decimal_digit_def)
  ultimately show "numericString (JString (c # rest)) = Inr False"
    by (auto simp: numericString_string first_is_def)
next
  show "numericString (JString (str ''NaN'')) = Inr False"
    by (simp add: numericString_string after_sign_def str_def is_white_space_def first_is_def
        decimal_digit_def)
next
  show "numericString (JString (str ''Infinity'')) = Inr False"
    by (simp add: numericString_string after_sign_def str_def is_white_space_def first_is_def
        decimal_digit_def)
qed

text \<open>\<^verbatim>\<open>"12px"\<close> is accepted and \<^verbatim>\<open>"abc"\<close> is rejected.\<close>

theorem numericString_spec_witness:
  "numericString (JString (str ''12px'')) = Inr True
   \<and> numericString (JString (str ''abc'')) = Inr False"
  using numericString_spec [of "JString (str ''12px'')" "0x31" "str ''2px''"]
    numericString_spec [of "JString (str ''abc'')" "0x61" "str ''bc''"]
  by (simp add: str_def decimal_digit_def is_white_space_def after_sign_def first_is_def)

text \<open>
  C5 as it is stated fails twice: \<^verbatim>\<open>"-123"\<close> begins with a character that is not a digit
  and is accepted; \<^verbatim>\<open>"0x"\<close> is the digit \<^verbatim>\<open>0\<close> followed by a character that is not a digit
  and is rejected.
\<close>

theorem numericString_counterexample:
  "numericString (JString (str ''-123'')) = Inr True
   \<and> \<not> decimal_digit (hd (str ''-123''))
   \<and> numericString (JString (str ''0x'')) = Inr False
   \<and> decimal_digit (hd (str ''0x'')) \<and> \<not> decimal_digit (hd (tl (str ''0x'')))"
  by (simp add: numericString_string after_sign_def str_def is_white_space_def first_is_def
      decimal_digit_def)

subsection \<open>Totality\<close>

lemma never_throws_atoms:
  "never_throws (const d)" "never_throws number" "never_throws string" "never_throws null"
  "never_throws undefined_v" "never_throws any" "never_throws symbol" "never_throws bigint"
  "never_throws boolean"
  by (auto simp: never_throws_def const_def number_def string_def null_def undefined_v_def
      any_def symbol_def bigint_def boolean_def)

lemma never_throws_numberRange: "never_throws (numberRange args)"
  by (auto simp: never_throws_def numberRange_def split: jsval.splits)

lemma never_throws_numericString: "never_throws numericString"
  by (auto simp: never_throws_def numericString_def string_def split: jsval.splits)

lemma never_throws_enum: "never_throws (enum enums)"
  by (auto simp: never_throws_def enum_def string_def)

lemma never_throws_regexp: "never_throws (regexp re)"
  by (auto simp: never_throws_def regexp_def split: jsval.splits)

lemma url_catches: "\<exists>b. url new_URL val = Inr b"
proof (cases val)
  case (JString s)
  then show ?thesis by (cases "new_URL s") (simp_all add: url_def try_catch_def)
qed (simp_all add: url_def)

lemma url_parse_failure: "new_URL s = Inl e \<Longrightarrow> url new_URL (JString s) = Inr False"
  by (simp add: url_def try_catch_def)

lemma never_throws_optional: "never_throws v \<Longrightarrow> never_throws (optional v)"
  by (auto simp: never_throws_def optional_def)

lemma never_throws_nullable: "never_throws v \<Longrightarrow> never_throws (nullable v)"
  by (auto simp: never_throws_def nullable_def null_def)

lemma intersection_loop_returns:
  "\<forall>v \<in> set vs. never_throws v \<Longrightarrow> \<exists>b. intersection_loop vs val failed = Inr b"
proof (induction vs arbitrary: failed)
  case Nil
  then show ?case by simp
next
  case (Cons v vs)
  then obtain ok where "v val = Inr ok"
    unfolding never_throws_def by (meson list.set_intros(1))
  with Cons show ?case by simp
qed

lemma never_throws_intersection:
  "\<forall>v \<in> set vs. never_throws v \<Longrightarrow> never_throws (intersection vs)"
  unfolding never_throws_def [of "intersection vs"] intersection_def
proof
  fix val
  assume "\<forall>v \<in> set vs. never_throws v"
  then obtain b where "intersection_loop vs val False = Inr b"
    using intersection_loop_returns by blast
  then show "\<exists>b. and_then (intersection_loop vs val False) (\<lambda>failed. Inr (\<not> failed)) = Inr b"
    by simp
qed

lemma union_returns:
  "\<forall>v \<in> set vs. never_throws v \<Longrightarrow> \<exists>b. union vs val = Inr b"
proof (induction vs)
  case Nil
  then show ?case by simp
next
  case (Cons v vs)
  then obtain ok where "v val = Inr ok"
    unfolding never_throws_def by (meson list.set_intros(1))
  with Cons show ?case by simp
qed

lemma never_throws_union: "\<forall>v \<in> set vs. never_throws v \<Longrightarrow> never_throws (union vs)"
  using union_returns by (simp add: never_throws_def)

lemma never_throws_safe: "never_throws v \<Longrightarrow> safe v"
  by (simp add: never_throws_def safe_def)

lemma safe_optional: "safe v \<Longrightarrow> safe (optional v)"
  by (auto simp: safe_def optional_def)

lemma safe_nullable: "safe v \<Longrightarrow> safe (nullable v)"
  by (auto simp: safe_def nullable_def null_def)

lemma intersection_loop_safe:
  "\<forall>v \<in> set vs. safe v \<Longrightarrow> plain val \<Longrightarrow> \<exists>b. intersection_loop vs val failed = Inr b"
proof (induction vs arbitrary: failed)
  case Nil
  then show ?case by simp
next
  case (Cons v vs)
  then obtain ok where "v val = Inr ok"
    unfolding safe_def by (meson list.set_intros(1))
  with Cons show ?case by simp
qed

lemma safe_intersection: "\<forall>v \<in> set vs. safe v \<Longrightarrow> safe (intersection vs)"
  unfolding safe_def [of "intersection vs"] intersection_def
proof (intro allI impI)
  fix val
  assume "\<forall>v \<in> set vs. safe v" and "plain val"
  then obtain b where "intersection_loop vs val False = Inr b"
    using intersection_loop_safe by blast
  then show "\<exists>b. and_then (intersection_loop vs val False) (\<lambda>failed. Inr (\<not> failed)) = Inr b"
    by simp
qed

lemma union_safe: "\<forall>v \<in> set vs. safe v \<Longrightarrow> plain val \<Longrightarrow> \<exists>b. union vs val = Inr b"
proof (induction vs)
  case Nil
  then show ?case by simp
next
  case (Cons v vs)
  then obtain ok where "v val = Inr ok"
    unfolding safe_def by (meson list.set_intros(1))
  with Cons show ?case by simp
qed

lemma safe_union: "\<forall>v \<in> set vs. safe v \<Longrightarrow> safe (union vs)"
  using union_safe by (simp add: safe_def)

text \<open>Plain data is read without throwing, and what is read is plain data.\<close>

lemma plain_primitive: "typeof val \<noteq> ''object'' \<Longrightarrow> plain val"
  by (simp add: plain.intros(1))

lemma plain_found:
  assumes "map_of properties key = Some r"
    and "\<forall>property \<in> set properties. \<exists>v. snd property = Inr v \<and> plain v"
  shows "\<exists>v. r = Inr v \<and> plain v"
proof -
  have "(key, r) \<in> set properties"
    using assms(1) by (rule map_of_SomeD)
  with assms(2) show ?thesis by fastforce
qed

lemma plain_element:
  assumes "map_of (array_entries elems) key = Some v"
  shows "v \<in> set elems"
proof -
  have "(key, v) \<in> set (array_entries elems)"
    using assms by (rule map_of_SomeD)
  then show ?thesis
    unfolding array_entries_def by (rule set_zip_rightD)
qed

lemma plain_get_optional:
  assumes "plain val"
  shows "\<exists>v. get_optional val key = Inr v \<and> plain v"
  using assms
proof (cases rule: plain.cases)
  case 1
  then have "get_optional val key = Inr JUndefined"
    by (cases val) auto
  then show ?thesis by (simp add: plain_primitive)
next
  case (2 own inherited)
  show ?thesis
  proof (cases "map_of own key")
    case (Some r)
    with 2 plain_found [of own key r] show ?thesis by auto
  next
    case None
    show ?thesis
    proof (cases "map_of inherited key")
      case (Some r)
      with 2 None plain_found [of inherited key r] show ?thesis by auto
    next
      case inherited: None
      with 2 None show ?thesis by (simp add: plain_primitive)
    qed
  qed
next
  case (3 elems extra inherited)
  show ?thesis
  proof (cases "map_of (array_entries elems) key")
    case (Some v)
    with 3 plain_element [of elems key v] show ?thesis by auto
  next
    case None
    show ?thesis
    proof (cases "key = str ''length''")
      case True
      with 3 None show ?thesis by (simp add: plain_primitive)
    next
      case False
      show ?thesis
      proof (cases "map_of extra key")
        case (Some r)
        with 3 None False plain_found [of extra key r] show ?thesis by auto
      next
        case extra: None
        show ?thesis
        proof (cases "map_of inherited key")
          case (Some r)
          with 3 None False extra plain_found [of inherited key r] show ?thesis by auto
        next
          case inherited: None
          with 3 None False extra show ?thesis by (simp add: plain_primitive)
        qed
      qed
    qed
  qed
qed

lemma plain_own_properties:
  assumes "plain val"
  shows "\<forall>property \<in> set (own_properties val). \<exists>v. snd property = Inr v \<and> plain v"
  using assms
proof (cases rule: plain.cases)
  case 1
  then show ?thesis
    by (cases val) (auto simp: data_def array_entries_def plain_primitive dest!: set_zip_rightD)
next
  case (2 own inherited)
  then show ?thesis by simp
next
  case (3 elems extra inherited)
  then show ?thesis
    by (auto simp: data_def array_entries_def dest!: set_zip_rightD)
qed

lemma read_all_plain:
  "\<forall>property \<in> set properties. \<exists>v. snd property = Inr v \<and> plain v
     \<Longrightarrow> \<exists>entries. read_all properties = Inr entries \<and> (\<forall>entry \<in> set entries. plain (snd entry))"
proof (induction properties)
  case Nil
  then show ?case by simp
next
  case (Cons property rest)
  then obtain v where v: "snd property = Inr v" "plain v" by auto
  from Cons obtain entries where
    "read_all rest = Inr entries" "\<forall>entry \<in> set entries. plain (snd entry)"
    by auto
  with v show ?case by simp
qed

lemma plain_array:
  assumes "plain (JArray elems extra inherited)"
  shows "\<forall>element \<in> set elems. plain element"
    and "values_of (JArray elems extra inherited) = Inr (elems, None)"
    and "entries_of (JArray elems extra inherited)
           = Inr (map index_pair (enumerate 0 elems), None)"
  using assms by (cases rule: plain.cases; simp add: values_of_def entries_of_def)+

text \<open>The structural validators return on plain data when their children do.\<close>

lemma object_loop_safe:
  assumes "\<forall>entry \<in> set validatorMap. safe (snd entry)" and "plain val"
  shows "\<exists>r. object_loop validatorMap val unchecked failed = Inr r"
  using assms(1)
proof (induction validatorMap arbitrary: "unchecked" failed)
  case Nil
  then show ?case by simp
next
  case (Cons entry rest)
  obtain v where v: "get_optional val (fst entry) = Inr v" "plain v"
    using plain_get_optional [OF assms(2)] by blast
  have "safe (snd entry)" using Cons.prems by simp
  with v obtain ok where "snd entry v = Inr ok"
    unfolding safe_def by blast
  with v Cons show ?case by simp
qed

lemma safe_object:
  assumes "\<forall>entry \<in> set validatorMap. safe (snd entry)"
  shows "safe (object validatorMap exact)"
  unfolding safe_def
proof (intro allI impI)
  fix val
  assume "plain val"
  then obtain left flag where
    "object_loop validatorMap val (remdups (map fst (own_properties val))) False
       = Inr (left, flag)"
    using object_loop_safe [OF assms] by (metis surj_pair)
  then show "\<exists>b. object validatorMap exact val = Inr b"
    by (simp add: object_def Object_keys_def)
qed

lemma array_loop_safe:
  "safe elem_validator \<Longrightarrow> \<forall>element \<in> set elems. plain element
     \<Longrightarrow> \<exists>b. array_loop elem_validator elems failed = Inr b"
proof (induction elems arbitrary: failed)
  case Nil
  then show ?case by simp
next
  case (Cons x rest)
  then obtain ok where "elem_validator x = Inr ok"
    unfolding safe_def by auto
  with Cons show ?case by simp
qed

lemma array_safe:
  assumes "safe elem_validator" and "plain val"
  shows "\<exists>b. array elem_validator val = Inr b"
proof (cases val)
  case (JArray elems extra inherited)
  note facts = plain_array [OF assms(2) [unfolded JArray]]
  obtain failed where "array_loop elem_validator elems False = Inr failed"
    using array_loop_safe [OF assms(1) facts(1)] by blast
  with JArray facts(2) show ?thesis by (simp add: array_def return_not_def)
qed (simp_all add: array_def)

lemma safe_array: "safe elem_validator \<Longrightarrow> safe (array elem_validator)"
  using array_safe by (simp add: safe_def)

lemma safe_arrayLength:
  assumes "safe (child args)"
  shows "safe (arrayLength args)"
  unfolding safe_def
proof (intro allI impI)
  fix val
  assume "plain val"
  then obtain b where "array (child args) val = Inr b"
    using array_safe [OF assms] by blast
  then show "\<exists>b. arrayLength args val = Inr b"
    by (simp add: arrayLength_def)
qed

lemma record_loop_safe:
  "safe valueValidator \<Longrightarrow> \<forall>entry \<in> set entries. plain (snd entry)
     \<Longrightarrow> \<exists>b. record_loop valueValidator entries failed = Inr b"
proof (induction entries arbitrary: failed)
  case Nil
  then show ?case by simp
next
  case (Cons entry rest)
  then obtain ok where "valueValidator (snd entry) = Inr ok"
    unfolding safe_def by auto
  with Cons show ?case by (simp add: keyValidator_string)
qed

lemma safe_record:
  assumes "safe valueValidator"
  shows "safe (record_v valueValidator)"
  unfolding safe_def
proof (intro allI impI)
  fix val
  assume val: "plain val"
  show "\<exists>b. record_v valueValidator val = Inr b"
  proof (cases "typeof val \<noteq> ''object'' \<or> val = JNull")
    case True
    then show ?thesis by (auto simp: record_v_def)
  next
    case False
    then have "\<not> loosely_null val" by (cases val) auto
    moreover obtain entries where entries: "read_all (own_properties val) = Inr entries"
      "\<forall>entry \<in> set entries. plain (snd entry)"
      using read_all_plain [OF plain_own_properties [OF val]] by blast
    moreover obtain failed where "record_loop valueValidator entries False = Inr failed"
      using record_loop_safe [OF assms entries(2)] by blast
    ultimately show ?thesis using False by (simp add: record_v_def Object_entries_def)
  qed
qed

lemma child_at_index:
  "i < length children
     \<Longrightarrow> child_at other children (fst (index_pair (i, element))) = children ! i"
  by (simp add: child_at_def index_pair_def)

lemma tuple_loop_safe:
  assumes "\<forall>v \<in> set children. safe v"
    and "\<forall>entry \<in> set entries. fst entry < length children \<and> plain (snd entry)"
  shows "\<exists>b. tuple_loop other children (map index_pair entries) failed = Inr b"
  using assms(2)
proof (induction entries arbitrary: failed)
  case Nil
  then show ?case by simp
next
  case (Cons entry rest)
  then have entry: "fst entry < length children" "plain (snd entry)" by simp_all
  then have "child_at other children (fst (index_pair entry)) = children ! fst entry"
    using child_at_index [of "fst entry" children other "snd entry"] by simp
  moreover have "safe (children ! fst entry)"
    using assms(1) entry(1) by simp
  ultimately obtain ok where
    "child_at other children (fst (index_pair entry)) (snd (index_pair entry)) = Inr ok"
    using entry(2) unfolding safe_def by (auto simp: index_pair_def)
  with Cons show ?case by simp
qed

lemma safe_tuple:
  assumes "\<forall>v \<in> set children. safe v"
  shows "safe (tuple other children)"
  unfolding safe_def
proof (intro allI impI)
  fix val
  assume val: "plain val"
  show "\<exists>b. tuple other children val = Inr b"
  proof (cases val)
    case (JArray elems extra inherited)
    note facts = plain_array [OF val [unfolded JArray]]
    show ?thesis
    proof (cases "length elems = length children")
      case True
      then have "\<forall>entry \<in> set (enumerate 0 elems).
          fst entry < length children \<and> plain (snd entry)"
        using facts(1) by (auto simp: in_set_enumerate_eq)
      then obtain failed where
        "tuple_loop other children (map index_pair (enumerate 0 elems)) False = Inr failed"
        using tuple_loop_safe [OF assms] by blast
      with JArray True facts(3) show ?thesis by (simp add: tuple_def return_not_def)
    next
      case False
      with JArray show ?thesis by (simp add: tuple_def)
    qed
  qed (simp_all add: tuple_def)
qed

text \<open>
  C4, as the source has it. The atomic validators return on every value, and so do
  \<^verbatim>\<open>$optional\<close>, \<^verbatim>\<open>$nullable\<close>, \<^verbatim>\<open>$union\<close> and \<^verbatim>\<open>$intersection\<close> once their children do. Every
  combinator returns on all plain data once its children return on all plain data.
  \<^verbatim>\<open>$url\<close> returns whatever the URL constructor of the host does, and returns false when
  the constructor throws.
\<close>

theorem validators_never_throw:
  "never_throws (const d) \<and> never_throws number \<and> never_throws (numberRange bounds)
   \<and> never_throws string \<and> never_throws numericString \<and> never_throws null
   \<and> never_throws undefined_v \<and> never_throws any \<and> never_throws (regexp re)
   \<and> never_throws email \<and> never_throws uuid \<and> never_throws (url new_URL)
   \<and> never_throws symbol \<and> never_throws bigint \<and> never_throws boolean
   \<and> never_throws (enum enums)
   \<and> (never_throws v \<longrightarrow>
        never_throws (optional v) \<and> never_throws (nullable v) \<and> safe v)
   \<and> ((\<forall>v \<in> set vs. never_throws v) \<longrightarrow>
        never_throws (intersection vs) \<and> never_throws (union vs))
   \<and> (safe v \<longrightarrow>
        safe (optional v) \<and> safe (nullable v) \<and> safe (array v) \<and> safe (record_v v)
        \<and> safe (arrayLength \<lparr>length_min = lo, length_max = hi, child = v\<rparr>))
   \<and> ((\<forall>v \<in> set vs. safe v) \<longrightarrow>
        safe (intersection vs) \<and> safe (union vs) \<and> safe (tuple other vs))
   \<and> ((\<forall>entry \<in> set validatorMap. safe (snd entry)) \<longrightarrow>
        safe (object validatorMap exact))
   \<and> (new_URL s = Inl e \<longrightarrow> url new_URL (JString s) = Inr False)"
  by (intro conjI impI)
     (simp_all add: never_throws_atoms never_throws_numberRange never_throws_numericString
       never_throws_regexp email_def uuid_def never_throws_enum never_throws_optional
       never_throws_nullable never_throws_intersection never_throws_union never_throws_safe
       safe_optional safe_nullable safe_array safe_record safe_arrayLength safe_intersection
       safe_union safe_tuple safe_object url_parse_failure,
      simp add: never_throws_def url_catches)

text \<open>
  A nested validator built from the library returns on all plain data, of which the
  object below is an example, and \<^verbatim>\<open>$url\<close> returns false on a string that the constructor
  refuses.
\<close>

theorem validators_never_throw_witness:
  "safe (object [(str ''name'', optional string),
                 (str ''tags'', array (union [string, number])),
                 (str ''pair'', tuple (\<lambda>children key val. Inl TypeError) [string, number])]
           True)
   \<and> plain (JObject
       [(str ''name'', Inr (JString (str ''A''))),
        (str ''tags'',
           Inr (JArray [JString (str ''a''), JNumber (Finite 1)] [] array_methods)),
        (str ''pair'',
           Inr (JArray [JString (str ''a''), JNumber (Finite 1)] [] array_methods))] [])
   \<and> object [(str ''name'', optional string),
              (str ''tags'', array (union [string, number])),
              (str ''pair'', tuple (\<lambda>children key val. Inl TypeError) [string, number])]
        True
        (JObject
          [(str ''name'', Inr (JString (str ''A''))),
           (str ''tags'',
              Inr (JArray [JString (str ''a''), JNumber (Finite 1)] [] array_methods)),
           (str ''pair'',
              Inr (JArray [JString (str ''a''), JNumber (Finite 1)] [] array_methods))] [])
      = Inr True
   \<and> url (\<lambda>s. Inl TypeError :: unit result) (JString (str ''not-a-url'')) = Inr False"
proof -
  note T = validators_never_throw
    [where d = LUndefined and bounds = "\<lparr>range_min = None, range_max = None\<rparr>"
       and re = LineStart and enums = "[]" and lo = None and hi = None
       and new_URL = "\<lambda>s. Inl TypeError :: unit result" and s = "str ''not-a-url''"
       and e = TypeError and other = "\<lambda>children key val. Inl TypeError"]
  note T0 = T [where v = string and vs = "[string, number]" and validatorMap = "[]"
       and exact = True]
  have atoms: "never_throws string" "never_throws number"
    using T0 by simp_all
  have s: "safe string"
    using T0 atoms by simp
  have n: "safe number"
    using T [where v = number and vs = "[]" and validatorMap = "[]" and exact = True] atoms
    by simp
  have u: "never_throws (union [string, number])"
    using T0 atoms by simp
  have a: "safe (array (union [string, number]))"
    using T [where v = "union [string, number]" and vs = "[]" and validatorMap = "[]"
       and exact = True] u by simp
  have p: "safe (optional string)"
    using T0 s by simp
  have t: "safe (tuple (\<lambda>children key val. Inl TypeError) [string, number])"
    using T0 s n by simp
  have "safe (object [(str ''name'', optional string),
                 (str ''tags'', array (union [string, number])),
                 (str ''pair'', tuple (\<lambda>children key val. Inl TypeError) [string, number])]
           True)"
    using T [where v = string and vs = "[]" and validatorMap = "[(str ''name'', optional string),
                 (str ''tags'', array (union [string, number])),
                 (str ''pair'', tuple (\<lambda>children key val. Inl TypeError) [string, number])]"
       and exact = True] a p t
    by simp
  moreover have "plain (JObject
       [(str ''name'', Inr (JString (str ''A''))),
        (str ''tags'',
           Inr (JArray [JString (str ''a''), JNumber (Finite 1)] [] array_methods)),
        (str ''pair'',
           Inr (JArray [JString (str ''a''), JNumber (Finite 1)] [] array_methods))] [])"
    by (auto intro!: plain.intros(2,3)
        simp: plain_primitive method_of_def array_methods_def array_entries_def
          string_of_nat.simps str_def)
  moreover have "object [(str ''name'', optional string),
              (str ''tags'', array (union [string, number])),
              (str ''pair'', tuple (\<lambda>children key val. Inl TypeError) [string, number])]
        True
        (JObject
          [(str ''name'', Inr (JString (str ''A''))),
           (str ''tags'',
              Inr (JArray [JString (str ''a''), JNumber (Finite 1)] [] array_methods)),
           (str ''pair'',
              Inr (JArray [JString (str ''a''), JNumber (Finite 1)] [] array_methods))] [])
      = Inr True"
    by (simp add: object_def Object_keys_def optional_def string_def number_def array_def
        tuple_def values_of_def entries_of_def method_of_def array_methods_def
        array_entries_def string_of_nat.simps str_def return_not_def child_at_def
        index_pair_def enumerate_eq_zip)
  moreover have "url (\<lambda>s. Inl TypeError :: unit result) (JString (str ''not-a-url'')) = Inr False"
    using T0 by simp
  ultimately show ?thesis by simp
qed

text \<open>
  C4 as it is stated fails on a value with a property whose read throws, and on an
  array whose method is overridden by what is not a function:
  \<^verbatim>\<open>$object({a: $any}, false)\<close> throws on \<^verbatim>\<open>{get a() { throw 0 }}\<close>, since it reads the
  declared property, and \<^verbatim>\<open>$array($any)\<close> throws on an array with the own property
  \<^verbatim>\<open>values\<close> set to 1, since it calls what it reads under that name.
\<close>

theorem throwing_read_counterexample:
  "object [(str ''a'', any)] False (JObject [(str ''a'', Inl (Thrown 0))] []) = Inl (Thrown 0)
   \<and> array any (JArray [] [(str ''values'', Inr (JNumber (Finite 1)))] array_methods)
     = Inl TypeError"
  by (simp add: object_def Object_keys_def array_def values_of_def method_of_def
      array_entries_def str_def)

subsection \<open>Patterns\<close>

lemma funpow_Image:
  fixes f :: "nat list \<Rightarrow> nat list" and R :: "(nat \<times> nat) set"
  assumes "\<And>ps. set (f ps) = R `` set ps"
  shows "set ((f ^^ n) ps) = (R ^^ n) `` set ps"
proof (induction n)
  case 0
  show ?case by simp
next
  case (Suc n)
  have "set ((f ^^ Suc n) ps) = R `` set ((f ^^ n) ps)"
    by (simp add: assms)
  also have "\<dots> = R `` ((R ^^ n) `` set ps)"
    by (simp only: Suc.IH)
  also have "\<dots> = (R ^^ Suc n) `` set ps"
    by (simp only: relpow.simps relcomp_Image)
  finally show ?case .
qed

lemma run_rel: "set (run r s ps) = rel r s `` set ps"
proof (induction r arbitrary: ps)
  case (Class p)
  show ?case by (auto simp: Image_def)
next
  case (Seq r1 r2)
  show ?case by (simp only: run.simps rel.simps Seq.IH relcomp_Image)
next
  case (Plus r)
  have "set (((run r s) ^^ Suc n) ps) = (rel r s ^^ Suc n) `` set ps" for n
    using Plus.IH by (rule funpow_Image)
  then have "set (run (Plus r) s ps)
      = (\<Union>n \<in> {0..<Suc (length s)}. (rel r s ^^ Suc n) `` set ps)"
    by (simp only: run.simps set_concat set_map set_upt image_image)
  then show ?case
    by (simp only: rel.simps UN_Image)
next
  case (Repeat n r)
  show ?case
    using Repeat.IH by (simp only: run.simps rel.simps funpow_Image)
next
  case (Group r)
  then show ?case by simp
next
  case LineStart
  show ?case by (auto simp: Image_def)
next
  case LineEnd
  show ?case by (auto simp: Image_def)
qed

lemma reach_Class: "reach (Class p) s i j = (j = Suc i \<and> i < length s \<and> p (s ! i))"
  by (simp add: reach_def)

lemma reach_Chr: "reach (Chr c) s i j = (j = Suc i \<and> i < length s \<and> s ! i = c)"
  by (simp add: reach_def Chr_def)

lemma reach_Seq: "reach (Seq r1 r2) s i j = (\<exists>k. reach r1 s i k \<and> reach r2 s k j)"
  by (auto simp: reach_def)

lemma reach_Group: "reach (Group r) s i j = reach r s i j"
  by (simp add: reach_def)

lemma reach_LineStart: "reach LineStart s i j = (i = 0 \<and> j = 0)"
  by (simp add: reach_def)

lemma reach_LineEnd: "reach LineEnd s i j = (i = length s \<and> j = length s)"
  by (simp add: reach_def)

lemma class_rounds:
  "((i, j) \<in> rel (Class p) s ^^ n)
     = (j = i + n \<and> (\<forall>k < n. i + k < length s \<and> p (s ! (i + k))))"
proof (induction n arbitrary: j)
  case 0
  show ?case by auto
next
  case (Suc n)
  have "((i, j) \<in> rel (Class p) s ^^ Suc n)
      = (\<exists>m. (i, m) \<in> rel (Class p) s ^^ n \<and> j = Suc m \<and> m < length s \<and> p (s ! m))"
    by auto
  also have "\<dots> = (j = i + Suc n \<and> (\<forall>k < n. i + k < length s \<and> p (s ! (i + k)))
        \<and> i + n < length s \<and> p (s ! (i + n)))"
    unfolding Suc.IH by auto
  also have "\<dots> = (j = i + Suc n \<and> (\<forall>k < Suc n. i + k < length s \<and> p (s ! (i + k))))"
    by (auto simp: less_Suc_eq)
  finally show ?case .
qed

lemma reach_Repeat_Class:
  "reach (Repeat n (Class p)) s i j
     = (j = i + n \<and> (\<forall>k < n. i + k < length s \<and> p (s ! (i + k))))"
  unfolding reach_def rel.simps(4) by (rule class_rounds)

lemma reach_Plus_Class:
  "reach (Plus (Class p)) s i j
     = (i < j \<and> j \<le> length s \<and> (\<forall>k. i \<le> k \<and> k < j \<longrightarrow> p (s ! k)))"
proof -
  have "reach (Plus (Class p)) s i j
      = (\<exists>n \<le> length s. (i, j) \<in> rel (Class p) s ^^ Suc n)"
    unfolding reach_def rel.simps(3) UN_iff Bex_def atLeastLessThan_iff less_Suc_eq_le
    by simp
  also have "\<dots> = (\<exists>n \<le> length s. j = i + Suc n
        \<and> (\<forall>k < Suc n. i + k < length s \<and> p (s ! (i + k))))"
    unfolding class_rounds ..
  also have "\<dots> = (i < j \<and> j \<le> length s \<and> (\<forall>k. i \<le> k \<and> k < j \<longrightarrow> p (s ! k)))"
  proof
    assume "\<exists>n \<le> length s. j = i + Suc n \<and> (\<forall>k < Suc n. i + k < length s \<and> p (s ! (i + k)))"
    then obtain n where n: "j = i + Suc n" "\<forall>k < Suc n. i + k < length s \<and> p (s ! (i + k))"
      by blast
    have "p (s ! k)" if "i \<le> k" "k < j" for k
      using n(2) [rule_format, of "k - i"] that n(1) by simp
    moreover have "j \<le> length s"
      using n(2) [rule_format, of n] n(1) by simp
    ultimately show "i < j \<and> j \<le> length s \<and> (\<forall>k. i \<le> k \<and> k < j \<longrightarrow> p (s ! k))"
      using n(1) by simp
  next
    assume a: "i < j \<and> j \<le> length s \<and> (\<forall>k. i \<le> k \<and> k < j \<longrightarrow> p (s ! k))"
    then have "j - i - 1 \<le> length s" "j = i + Suc (j - i - 1)"
      "\<forall>k < Suc (j - i - 1). i + k < length s \<and> p (s ! (i + k))"
      by auto
    then show "\<exists>n \<le> length s. j = i + Suc n \<and> (\<forall>k < Suc n. i + k < length s \<and> p (s ! (i + k)))"
      by blast
  qed
  finally show ?thesis .
qed

lemma RegExp_test_reach: "RegExp_test r s = (\<exists>i \<le> length s. \<exists>j. reach r s i j)"
proof -
  have "RegExp_test r s = (\<exists>j. j \<in> set (run r s [0..<Suc (length s)]))"
    unfolding RegExp_test_def by (simp only: set_empty [symmetric] ex_in_conv)
  also have "\<dots> = (\<exists>j. \<exists>i \<in> {0..<Suc (length s)}. (i, j) \<in> rel r s)"
    by (simp only: run_rel set_upt Image_iff)
  also have "\<dots> = (\<exists>i \<le> length s. \<exists>j. reach r s i j)"
    unfolding reach_def Bex_def atLeastLessThan_iff less_Suc_eq_le by blast
  finally show ?thesis .
qed

lemma fits_Seq:
  assumes "fits r1 w1" and "fits r2 w2"
  shows "fits (Seq r1 r2) (w1 @ w2)"
  unfolding fits_def reach_Seq
proof (intro allI)
  fix pre post
  have "reach r1 (pre @ w1 @ (w2 @ post)) (length pre) (length pre + length w1)"
    using assms(1) unfolding fits_def by blast
  moreover have "reach r2 ((pre @ w1) @ w2 @ post) (length (pre @ w1)) (length (pre @ w1) + length w2)"
    using assms(2) unfolding fits_def by blast
  ultimately show "\<exists>k. reach r1 (pre @ (w1 @ w2) @ post) (length pre) k
      \<and> reach r2 (pre @ (w1 @ w2) @ post) k (length pre + length (w1 @ w2))"
    by (intro exI [of _ "length pre + length w1"]) (simp add: add.assoc)
qed

lemma fits_Chr: "fits (Chr c) [c]"
  by (simp add: fits_def reach_Chr)

lemma fits_Group: "fits r w \<Longrightarrow> fits (Group r) w"
  by (simp add: fits_def reach_Group)

lemma nth_middle_part: "k < length w \<Longrightarrow> (pre @ w @ post) ! (length pre + k) = w ! k"
  by (simp add: nth_append)

lemma fits_Repeat_Class:
  assumes "list_all p w"
  shows "fits (Repeat (length w) (Class p)) w"
  unfolding fits_def reach_Repeat_Class
proof (intro allI conjI impI)
  fix pre post :: jsstring and k
  assume k: "k < length w"
  then show "length pre + k < length (pre @ w @ post)" by simp
  show "p ((pre @ w @ post) ! (length pre + k))"
    using k assms by (simp only: nth_middle_part) (simp add: list_all_length)
qed simp

lemma fits_Plus_Class:
  assumes "w \<noteq> []" and "list_all p w"
  shows "fits (Plus (Class p)) w"
  unfolding fits_def reach_Plus_Class
proof (intro allI conjI impI)
  fix pre post :: jsstring
  show "length pre < length pre + length w" using assms(1) by simp
  show "length pre + length w \<le> length (pre @ w @ post)" by simp
  fix k
  assume "length pre \<le> k \<and> k < length pre + length w"
  then have "k - length pre < length w" "k = length pre + (k - length pre)" by auto
  then have "(pre @ w @ post) ! k = w ! (k - length pre)"
    using nth_middle_part by metis
  then show "p ((pre @ w @ post) ! k)"
    using assms(2) \<open>k - length pre < length w\<close> by (simp add: list_all_length)
qed

lemma fits_test: "fits r w \<Longrightarrow> RegExp_test r (pre @ w @ post)"
  unfolding RegExp_test_reach fits_def
  by (intro exI [of _ "length pre"] conjI exI [of _ "length pre + length w"]) simp_all

lemma uuid_shaped_fits:
  assumes "uuid_shaped u"
  shows "fits uuid_pattern u"
proof -
  from assms obtain a b c d e where
    u: "u = a @ [0x2D] @ b @ [0x2D] @ c @ [0x2D] @ d @ [0x2D] @ e"
    and len: "length a = 8" "length b = 4" "length c = 4" "length d = 4" "length e = 12"
    and hex: "list_all hex_digit a" "list_all hex_digit b" "list_all hex_digit c"
      "list_all hex_digit d" "list_all hex_digit e"
    unfolding uuid_shaped_def by auto
  have g: "fits (Group (Repeat (length w) (Class hex_digit))) w" if "list_all hex_digit w" for w
    using that by (intro fits_Group fits_Repeat_Class)
  show ?thesis
    unfolding uuid_pattern_def u
    using g [OF hex(1)] g [OF hex(2)] g [OF hex(3)] g [OF hex(4)] g [OF hex(5)]
    unfolding len
    by (intro fits_Seq fits_Chr)
qed

lemma uuid_superstring: "uuid_shaped u \<Longrightarrow> uuid (JString (p @ u @ q)) = Inr True"
  by (simp add: uuid_def regexp_def fits_test uuid_shaped_fits)

lemma email_test_positions: "RegExp_test email_pattern s = (\<exists>i j. email_positions s i j)"
proof
  assume "RegExp_test email_pattern s"
  then obtain k1 k3 where
    "0 < k1" "k1 \<le> length s" "\<forall>k. 0 \<le> k \<and> k < k1 \<longrightarrow> not_space_at (s ! k)"
    "k1 < length s" "s ! k1 = 0x40"
    "Suc k1 < k3" "k3 \<le> length s" "\<forall>k. Suc k1 \<le> k \<and> k < k3 \<longrightarrow> not_space_at (s ! k)"
    "k3 < length s" "s ! k3 = 0x2E"
    "Suc k3 < length s" "\<forall>k. Suc k3 \<le> k \<and> k < length s \<longrightarrow> not_space_at (s ! k)"
    unfolding RegExp_test_reach email_pattern_def reach_Seq reach_LineStart reach_LineEnd
      reach_Chr reach_Plus_Class
    by blast
  then have "email_positions s k1 k3"
    unfolding email_positions_def by simp
  then show "\<exists>i j. email_positions s i j" by blast
next
  assume "\<exists>i j. email_positions s i j"
  then obtain i j where p: "email_positions s i j" by blast
  have 1: "reach (Plus (Class not_space_at)) s 0 i"
    using p unfolding email_positions_def reach_Plus_Class by simp
  have 2: "reach (Chr 0x40) s i (Suc i)"
    using p unfolding email_positions_def reach_Chr by simp
  have 3: "reach (Plus (Class not_space_at)) s (Suc i) j"
    using p unfolding email_positions_def reach_Plus_Class by simp
  have 4: "reach (Chr 0x2E) s j (Suc j)"
    using p unfolding email_positions_def reach_Chr by simp
  have 5: "reach (Plus (Class not_space_at)) s (Suc j) (length s)"
    using p unfolding email_positions_def reach_Plus_Class by simp
  have "reach email_pattern s 0 (length s)"
    unfolding email_pattern_def reach_Seq reach_LineStart reach_LineEnd
    using 1 2 3 4 5 by blast
  then show "RegExp_test email_pattern s"
    unfolding RegExp_test_reach by blast
qed

lemma email_positions_shaped:
  assumes "email_positions s i j"
  shows "email_shaped s"
proof -
  from assms have i: "i < length s" and j: "j < length s" and ij: "Suc i < j"
    unfolding email_positions_def by simp_all
  let ?l = "take i s" and ?d = "take (j - Suc i) (drop (Suc i) s)" and ?t = "drop (Suc j) s"
  have s1: "s = take i s @ s ! i # drop (Suc i) s"
    using i by (rule id_take_nth_drop)
  have "j - Suc i < length (drop (Suc i) s)" using j ij by simp
  then have "drop (Suc i) s = ?d @ drop (Suc i) s ! (j - Suc i) # drop (Suc (j - Suc i)) (drop (Suc i) s)"
    by (rule id_take_nth_drop)
  moreover have "drop (Suc i) s ! (j - Suc i) = s ! j" using j ij by simp
  moreover have "drop (Suc (j - Suc i)) (drop (Suc i) s) = ?t" using ij by simp
  ultimately have s2: "drop (Suc i) s = ?d @ s ! j # ?t" by simp
  have split: "s = ?l @ [0x40] @ ?d @ [0x2E] @ ?t"
    using s1 s2 assms unfolding email_positions_def by simp
  have nonempty: "?l \<noteq> []" "?d \<noteq> []" "?t \<noteq> []"
    using assms unfolding email_positions_def by auto
  have "list_all not_space_at ?l"
    using assms unfolding email_positions_def by (simp add: list_all_length)
  moreover have "list_all not_space_at ?d"
    using assms unfolding email_positions_def by (auto simp: list_all_length)
  moreover have "list_all not_space_at ?t"
    using assms unfolding email_positions_def by (auto simp: list_all_length)
  ultimately have "list_all not_space_at (?l @ ?d @ ?t)" by simp
  with split nonempty show ?thesis
    unfolding email_shaped_def by blast
qed

lemma email_shaped_positions:
  assumes "email_shaped s"
  shows "\<exists>i j. email_positions s i j"
proof -
  from assms obtain l d t where
    s: "s = l @ 0x40 # d @ 0x2E # t" and ne: "l \<noteq> []" "d \<noteq> []" "t \<noteq> []"
    and cl: "list_all not_space_at l" "list_all not_space_at d" "list_all not_space_at t"
    unfolding email_shaped_def by auto
  have al: "s ! k = l ! k" if "k < length l" for k
    using that by (simp add: s nth_append)
  have ad: "s ! k = d ! (k - Suc (length l))" if "Suc (length l) \<le> k" "k < Suc (length l + length d)" for k
    using that by (auto simp: s nth_append nth_Cons')
  have at: "s ! k = t ! (k - Suc (Suc (length l + length d)))"
    if "Suc (Suc (length l + length d)) \<le> k" for k
    using that by (auto simp: s nth_append nth_Cons')
  have "s ! length l = 0x40" by (simp add: s)
  moreover have "s ! Suc (length l + length d) = 0x2E"
    by (simp add: s nth_append)
  moreover have "not_space_at (s ! k)" if "k < length l" for k
    using that cl(1) by (simp add: al list_all_length)
  moreover have "not_space_at (s ! k)" if "Suc (length l) \<le> k \<and> k < Suc (length l + length d)" for k
  proof -
    have "k - Suc (length l) < length d" using that by auto
    then show ?thesis using that cl(2) by (simp add: ad list_all_length)
  qed
  moreover have "not_space_at (s ! k)" if "Suc (Suc (length l + length d)) \<le> k \<and> k < length s" for k
  proof -
    have "k - Suc (Suc (length l + length d)) < length t" using that by (auto simp: s)
    then show ?thesis using that cl(3) by (simp add: at list_all_length)
  qed
  moreover have "0 < length l" "Suc (length l) < Suc (length l + length d)"
    "Suc (Suc (length l + length d)) < length s"
    using ne by (simp_all add: s)
  ultimately have "email_positions s (length l) (Suc (length l + length d))"
    unfolding email_positions_def by blast
  then show ?thesis by blast
qed

lemma email_string: "email (JString s) = Inr (email_shaped s)"
  using email_positions_shaped email_shaped_positions
  by (auto simp: email_def regexp_def email_test_positions)

text \<open>
  C6, as the source has it. The pattern of \<^verbatim>\<open>$uuid\<close> is not anchored: a string that contains
  a UUID in canonical form is accepted, whatever stands before and after it. The pattern
  of \<^verbatim>\<open>$email\<close> is anchored at both ends: a string is accepted exactly when the whole of it
  has the form of an address.
\<close>

theorem uuid_email_matching:
  "(uuid_shaped u \<longrightarrow> uuid (JString (p @ u @ q)) = Inr True)
   \<and> email (JString s) = Inr (email_shaped s)"
  by (simp add: uuid_superstring email_string)

lemma uuid_shaped_example: "uuid_shaped (str ''123e4567-e89b-12d3-a456-426614174000'')"
  unfolding uuid_shaped_def
proof (intro exI conjI)
  show "str ''123e4567-e89b-12d3-a456-426614174000''
      = str ''123e4567'' @ [0x2D] @ str ''e89b'' @ [0x2D] @ str ''12d3'' @ [0x2D]
          @ str ''a456'' @ [0x2D] @ str ''426614174000''"
    by (simp add: str_def)
  show "list_all hex_digit
      (str ''123e4567'' @ str ''e89b'' @ str ''12d3'' @ str ''a456'' @ str ''426614174000'')"
    by (simp add: str_def hex_digit_def)
qed (simp_all add: str_def)

lemma email_shaped_example: "email_shaped (str ''test@example.com'')"
  unfolding email_shaped_def
  by (intro exI [of _ "str ''test''"] exI [of _ "str ''example''"] exI [of _ "str ''com''"])
     (simp add: str_def not_space_at_def is_white_space_def)

text \<open>A UUID inside a longer string, and an address.\<close>

theorem uuid_email_matching_witness:
  "uuid (JString (str ''id: 123e4567-e89b-12d3-a456-426614174000!'')) = Inr True
   \<and> email (JString (str ''test@example.com'')) = Inr True"
proof -
  have "str ''id: 123e4567-e89b-12d3-a456-426614174000!''
      = str ''id: '' @ str ''123e4567-e89b-12d3-a456-426614174000'' @ str ''!''"
    by (simp add: str_def)
  then show ?thesis
    using uuid_email_matching [of "str ''123e4567-e89b-12d3-a456-426614174000''" "str ''id: ''"
        "str ''!''" "str ''test@example.com''"]
      uuid_shaped_example email_shaped_example
    by simp
qed

lemma email_rejects_leading_space: "\<not> email_shaped (0x20 # s)"
proof
  assume "email_shaped (0x20 # s)"
  then obtain l d t where s: "0x20 # s = l @ [0x40] @ d @ [0x2E] @ t" and "l \<noteq> []"
    and cl: "list_all not_space_at (l @ d @ t)"
    unfolding email_shaped_def by blast
  then obtain x l' where "l = x # l'" by (cases l) auto
  with s cl have "not_space_at 0x20" by simp
  then show False by (simp add: not_space_at_def is_white_space_def)
qed

text \<open>
  C6 as it is stated fails for \<^verbatim>\<open>$email\<close>: \<^verbatim>\<open>"a@b.c"\<close> is accepted, and the longer string
  \<^verbatim>\<open>" a@b.c"\<close> that contains it is rejected.
\<close>

theorem email_superstring_counterexample:
  "email (JString (str ''a@b.c'')) = Inr True
   \<and> email (JString (str '' a@b.c'')) = Inr False"
proof -
  have "email_shaped (str ''a@b.c'')"
    unfolding email_shaped_def
    by (intro exI [of _ "str ''a''"] exI [of _ "str ''b''"] exI [of _ "str ''c''"])
       (simp add: str_def not_space_at_def is_white_space_def)
  moreover have "\<not> email_shaped (str '' a@b.c'')"
    using email_rejects_leading_space [of "str ''a@b.c''"] by (simp add: str_def)
  ultimately show ?thesis by (simp add: email_string)
qed

end
